theory Spec2Isabelle
  imports Complex_Main "HOL-Library.Log_Nat" "HOL-Library.Product_Lexorder"
begin

section \<open>Python numbers\<close>

text \<open>
  The two programs (\<^verbatim>\<open>website.py\<close>, the run tracker, and \<^verbatim>\<open>body_calculation.py\<close>, the
  health dashboard) compute with Python \<^verbatim>\<open>int\<close> and \<^verbatim>\<open>float\<close>. Integers are \<^typ>\<open>int\<close>.
  A finite float is represented by the real number it denotes.

  The functions whose results depend on the rounding of binary64 are embedded with it:
  the pace/speed conversions, the minutes of a time, the finish-time table, the BMI and
  the rounded time and pace of a saved run. Each float operation there is the exact
  operation on the reals followed by the rounding to binary64 of section
  \<open>Binary64 arithmetic\<close>. The formatting of a pace and the averages of stored columns
  are embedded with exact arithmetic on the reals.

  Exceptions are values: a function that can raise returns \<open>py_error + 'a\<close>. The last
  constructor is not an exception of Python: it marks a run whose stored time or pace would
  be an infinity, which the run log of the model, a list of finite numbers, cannot hold.
  The number inputs of the form (integers below \<open>2^53\<close>, a distance of at least 0.1) keep
  the handler away from it.
\<close>

datatype py_error = ZeroDivisionError | KeyError | OverflowError | ValueError | InfiniteValue

text \<open>\<^verbatim>\<open>int(x)\<close> on a float truncates towards zero.\<close>

definition py_int :: "real \<Rightarrow> int" where
  "py_int x = (if 0 \<le> x then \<lfloor>x\<rfloor> else \<lceil>x\<rceil>)"

text \<open>\<^verbatim>\<open>round(x)\<close> rounds to the nearest integer, a tie to the even neighbour.\<close>

definition py_round :: "real \<Rightarrow> int" where
  "py_round x =
     (let f = \<lfloor>x\<rfloor>; d = x - of_int f
      in if d < 1 / 2 then f
         else if 1 / 2 < d then f + 1
         else if even f then f else f + 1)"

text \<open>The nearest multiple of one hundredth of a real, a tie to the even multiple.\<close>

definition round2 :: "real \<Rightarrow> real" where
  "round2 x = of_int (py_round (x * 100)) / 100"

section \<open>Formatting integers\<close>

definition digit_char :: "nat \<Rightarrow> char" where
  "digit_char n = ''0123456789'' ! n"

fun digits :: "nat \<Rightarrow> string" where
  "digits n = (if n < 10 then [digit_char n] else digits (n div 10) @ [digit_char (n mod 10)])"

declare digits.simps [simp del]

text \<open>\<^verbatim>\<open>f"{i}"\<close> for an integer.\<close>

definition str_int :: "int \<Rightarrow> string" where
  "str_int i = (if i < 0 then ''-'' @ digits (nat (- i)) else digits (nat i))"

text \<open>
  \<^verbatim>\<open>f"{i:02d}"\<close>: at least two characters, padded with a zero on the left. A negative
  number already has two characters with its sign.
\<close>

definition fmt02d :: "int \<Rightarrow> string" where
  "fmt02d i = (if 0 \<le> i \<and> i < 10 then ''0'' @ str_int i else str_int i)"

section \<open>Binary64 arithmetic\<close>

text \<open>
  The conversions between pace and speed are one float division each. A binary64 value is
  a real number, an infinity or NaN (the sign of zero is not kept: it is invisible to
  \<^verbatim>\<open>==\<close>). \<open>bexp x\<close> is the binary exponent of \<open>x\<close>, the integer \<open>e\<close> with
  \<open>2^e \<le> |x| < 2^(e+1)\<close>; \<open>round64\<close> rounds a real to the nearest number with a
  53-bit significand, a tie to the even significand, on the fixed grid of the subnormal
  numbers below \<open>2^-1022\<close>; a result of magnitude \<open>2^1024\<close> or more is an infinity.
\<close>

datatype f64 = Fin real | PosInf | NegInf | NaN

definition bexp :: "real \<Rightarrow> int" where
  "bexp x =
     (if 1 \<le> \<bar>x\<bar> then bitlen \<lfloor>\<bar>x\<bar>\<rfloor> - 1
      else - bitlen (\<lceil>1 / \<bar>x\<bar>\<rceil> - 1))"

definition round64 :: "real \<Rightarrow> real" where
  "round64 x =
     (if x = 0 then 0
      else let ulp = 2 powi (max (bexp x) (- 1022) - 52)
           in of_int (py_round (x / ulp)) * ulp)"

definition to_f64 :: "real \<Rightarrow> f64" where
  "to_f64 x =
     (let r = round64 x
      in if 2 ^ 1024 \<le> r then PosInf
         else if r \<le> - (2 ^ 1024) then NegInf
         else Fin r)"

text \<open>\<^verbatim>\<open>a / b\<close> on floats: Python raises for a zero divisor, whatever the dividend.\<close>

definition fdiv64 :: "f64 \<Rightarrow> f64 \<Rightarrow> py_error + f64" where
  "fdiv64 a b =
     (case b of
        Fin y \<Rightarrow>
          if y = 0 then Inl ZeroDivisionError
          else (case a of
                  Fin x \<Rightarrow> Inr (to_f64 (x / y))
                | PosInf \<Rightarrow> Inr (if 0 < y then PosInf else NegInf)
                | NegInf \<Rightarrow> Inr (if 0 < y then NegInf else PosInf)
                | NaN \<Rightarrow> Inr NaN)
      | NaN \<Rightarrow> Inr NaN
      | _ \<Rightarrow> (case a of Fin x \<Rightarrow> Inr (Fin 0) | _ \<Rightarrow> Inr NaN))"

definition pace_to_speed :: "f64 \<Rightarrow> py_error + f64" where
  "pace_to_speed pace_min_per_km = fdiv64 (Fin 60) pace_min_per_km"

definition speed_to_pace :: "f64 \<Rightarrow> py_error + f64" where
  "speed_to_pace speed_kmh = fdiv64 (Fin 60) speed_kmh"

text \<open>
  The composition \<^verbatim>\<open>pace_to_speed(speed_to_pace(s))\<close>; an exception of the inner call
  propagates.
\<close>

definition speed_round_trip :: "f64 \<Rightarrow> py_error + f64" where
  "speed_round_trip s = (case speed_to_pace s of Inl e \<Rightarrow> Inl e | Inr p \<Rightarrow> pace_to_speed p)"

section \<open>Other binary64 operations\<close>

text \<open>
  The conversion of an integer to a float, as in \<^verbatim>\<open>n + x\<close> and \<^verbatim>\<open>x - n\<close>, and the
  division \<^verbatim>\<open>a / b\<close> of two integers: the nearest double, an \<^verbatim>\<open>OverflowError\<close> when that
  is not finite.
\<close>

definition float_of_int :: "int \<Rightarrow> py_error + real" where
  "float_of_int n = (case to_f64 (of_int n) of Fin r \<Rightarrow> Inr r | _ \<Rightarrow> Inl OverflowError)"

definition int_div :: "int \<Rightarrow> int \<Rightarrow> py_error + real" where
  "int_div a b =
     (if b = 0 then Inl ZeroDivisionError
      else case to_f64 (of_int a / of_int b) of Fin r \<Rightarrow> Inr r | _ \<Rightarrow> Inl OverflowError)"

text \<open>
  \<^verbatim>\<open>round(x, 2)\<close>: the decimal with two places nearest to the exact value of the double, a
  tie to the even decimal, and then the double nearest to that decimal.
\<close>

definition py_round2 :: "f64 \<Rightarrow> f64" where
  "py_round2 x = (case x of Fin r \<Rightarrow> to_f64 (round2 r) | _ \<Rightarrow> x)"

text \<open>
  \<^verbatim>\<open>x % y\<close> and \<^verbatim>\<open>x // y\<close> on finite floats, as CPython computes them from the
  \<^verbatim>\<open>fmod\<close> of C, which is exact and has the sign of \<open>x\<close>: the remainder takes the sign of the
  divisor, and the quotient \<open>(x - mod) / y\<close> is snapped to the nearest integer. The divisor
  is not zero; for a divisor of magnitude 1 or more, as 60 below, no step can overflow.
\<close>

definition c_fmod :: "real \<Rightarrow> real \<Rightarrow> real" where
  "c_fmod x y = x - y * of_int (py_int (x / y))"

definition fmod :: "real \<Rightarrow> real \<Rightarrow> real" where
  "fmod vx wx =
     (let md = c_fmod vx wx
      in if md \<noteq> 0 \<and> (wx < 0) \<noteq> (md < 0) then round64 (md + wx) else md)"

definition floordiv :: "real \<Rightarrow> real \<Rightarrow> real" where
  "floordiv vx wx =
     (let md = c_fmod vx wx;
          dv = round64 (round64 (vx - md) / wx);
          dv2 = (if md \<noteq> 0 \<and> (wx < 0) \<noteq> (md < 0) then round64 (dv - 1) else dv)
      in if dv2 \<noteq> 0
         then (let f = of_int \<lfloor>dv2\<rfloor>
               in if 1 / 2 < round64 (dv2 - f) then round64 (f + 1) else f)
         else 0)"

text \<open>A comparison \<^verbatim>\<open>x < c\<close> of a float with a finite constant; it is false for NaN.\<close>

definition f64_less :: "f64 \<Rightarrow> real \<Rightarrow> bool" where
  "f64_less x c = (case x of Fin r \<Rightarrow> r < c | NegInf \<Rightarrow> True | _ \<Rightarrow> False)"

section \<open>Pace helpers of the run tracker\<close>

text \<open>
  \<^verbatim>\<open>h * 60 + m + s / 60\<close> on three integers: the integer \<open>h * 60 + m\<close>, converted to a
  float, plus the float \<open>s / 60\<close>.
\<close>

definition to_minutes :: "int \<Rightarrow> int \<Rightarrow> int \<Rightarrow> py_error + f64" where
  "to_minutes h m s =
     (case int_div s 60 of
        Inl e \<Rightarrow> Inl e
      | Inr b \<Rightarrow>
          (case float_of_int (h * 60 + m) of
             Inl e \<Rightarrow> Inl e
           | Inr a \<Rightarrow> Inr (to_f64 (a + b))))"

definition format_pace :: "real \<Rightarrow> string" where
  "format_pace p =
     (let m = py_int p;
          s = py_round ((p - of_int m) * 60)
      in str_int m @ '':'' @ fmt02d s)"

text \<open>
  The body of the loop of \<^verbatim>\<open>time_table_from_pace\<close> for a finite time in minutes: hours,
  minutes and seconds, and the string made of them. The integer \<open>hours * 60\<close> is converted
  to a float for the subtraction.
\<close>

definition hms :: "real \<Rightarrow> py_error + int \<times> int \<times> int" where
  "hms total_minutes =
     (let hours = py_int (floordiv total_minutes 60);
          minutes = py_int (fmod total_minutes 60)
      in case float_of_int (hours * 60) of
           Inl e \<Rightarrow> Inl e
         | Inr c \<Rightarrow>
             Inr (hours, minutes,
                  py_int (round64 (round64 (round64 (total_minutes - c) - of_int minutes) * 60))))"

fun time_str :: "int \<times> int \<times> int \<Rightarrow> string" where
  "time_str (hours, minutes, seconds) =
     (if hours > 0 then fmt02d hours @ '':'' @ fmt02d minutes @ '':'' @ fmt02d seconds
      else fmt02d minutes @ '':'' @ fmt02d seconds)"

text \<open>The distances: 5 and 10 are integers, 21.097 and 42.195 the doubles of these literals.\<close>

definition distances :: "(string \<times> real) list" where
  "distances =
     [(''5 km'', 5),
      (''10 km'', 10),
      (''Half Marathon (21.1 km)'', round64 (21097 / 1000)),
      (''Full Marathon (42.2 km)'', round64 (42195 / 1000))]"

text \<open>
  The loop over the distances. A product that is not finite makes \<^verbatim>\<open>total_minutes // 60\<close>
  NaN, and \<^verbatim>\<open>int\<close> of NaN raises a \<^verbatim>\<open>ValueError\<close>.
\<close>

fun time_rows :: "real \<Rightarrow> (string \<times> real) list \<Rightarrow> py_error + (string \<times> string) list" where
  "time_rows pace [] = Inr []"
| "time_rows pace ((name, km) # rest) =
     (case to_f64 (pace * km) of
        Fin total_minutes \<Rightarrow>
          (case hms total_minutes of
             Inl e \<Rightarrow> Inl e
           | Inr x \<Rightarrow>
               (case time_rows pace rest of
                  Inl e \<Rightarrow> Inl e
                | Inr rows \<Rightarrow> Inr ((name, time_str x) # rows)))
      | _ \<Rightarrow> Inl ValueError)"

definition time_table_from_pace :: "real \<Rightarrow> py_error + (string \<times> string) list" where
  "time_table_from_pace pace_min_per_km = time_rows pace_min_per_km distances"

text \<open>
  The finish-time table as the specification words it: the same table with the seconds
  rounded to the nearest, \<open>seconds = round((total_minutes - whole_minutes) * 60)\<close>.
\<close>

definition hms_rounded :: "real \<Rightarrow> py_error + int \<times> int \<times> int" where
  "hms_rounded total_minutes =
     (let hours = py_int (floordiv total_minutes 60);
          minutes = py_int (fmod total_minutes 60)
      in case float_of_int (hours * 60) of
           Inl e \<Rightarrow> Inl e
         | Inr c \<Rightarrow>
             Inr (hours, minutes,
                  py_round (round64 (round64 (round64 (total_minutes - c) - of_int minutes) * 60))))"

fun time_rows_spec :: "real \<Rightarrow> (string \<times> real) list \<Rightarrow> py_error + (string \<times> string) list" where
  "time_rows_spec pace [] = Inr []"
| "time_rows_spec pace ((name, km) # rest) =
     (case to_f64 (pace * km) of
        Fin total_minutes \<Rightarrow>
          (case hms_rounded total_minutes of
             Inl e \<Rightarrow> Inl e
           | Inr x \<Rightarrow>
               (case time_rows_spec pace rest of
                  Inl e \<Rightarrow> Inl e
                | Inr rows \<Rightarrow> Inr ((name, time_str x) # rows)))
      | _ \<Rightarrow> Inl ValueError)"

definition finish_time_table_spec :: "real \<Rightarrow> py_error + (string \<times> string) list" where
  "finish_time_table_spec pace = time_rows_spec pace distances"

section \<open>Body measurement\<close>

text \<open>
  \<^verbatim>\<open>weight / ((height_cm / 100) ** 2)\<close>. The quotient by 100 cannot overflow. The square is
  the \<^verbatim>\<open>pow\<close> of the C library, taken here as the correctly rounded square; Python raises
  an \<^verbatim>\<open>OverflowError\<close> when it overflows and lets it underflow to zero, where the
  division raises.
\<close>

definition calculate_bmi :: "real \<Rightarrow> real \<Rightarrow> py_error + f64" where
  "calculate_bmi weight height_cm =
     (let h_m = round64 (height_cm / 100)
      in case to_f64 (h_m * h_m) of
           Fin sq \<Rightarrow> fdiv64 (Fin weight) (Fin sq)
         | _ \<Rightarrow> Inl OverflowError)"

definition bmi_category :: "f64 \<Rightarrow> string" where
  "bmi_category bmi =
     (if f64_less bmi (185 / 10) then ''Underweight''
      else if f64_less bmi 25 then ''Normal weight''
      else if f64_less bmi 30 then ''Overweight''
      else ''Obese'')"

section \<open>Records and files\<close>

text \<open>
  A calendar day is the triple (year, month, day), ordered as Python orders dates. On disk
  a day is the text \<^verbatim>\<open>DD/MM/YYYY\<close>; writing and parsing that text is not part of the model.
\<close>

type_synonym date = "int \<times> int \<times> int"

definition year_of :: "date \<Rightarrow> int" where
  "year_of d = fst d"

definition month_of :: "date \<Rightarrow> int" where
  "month_of d = fst (snd d)"

record food_entry =
  date :: date
  meal :: string
  food :: string
  calories_in :: int
  exercise :: string
  calories_out :: int

record run =
  run_date :: date
  distance_km :: real
  time_min :: real
  pace_min_per_km :: real

record note_row =
  note_id :: int
  note_date :: date
  title :: string
  content :: string

text \<open>
  The three CSV files. \<open>None\<close> is a file that does not exist; an existing file is the
  list of the rows that \<^verbatim>\<open>pd.read_csv\<close> reads from it, in the order of the file.
\<close>

record files =
  food_log_csv :: "food_entry list option"
  runs_csv :: "run list option"
  notes_csv :: "note_row list option"

definition load_food_data :: "files \<Rightarrow> food_entry list" where
  "load_food_data fs = (case food_log_csv fs of Some rows \<Rightarrow> rows | None \<Rightarrow> [])"

definition save_food_data :: "files \<Rightarrow> food_entry list \<Rightarrow> files" where
  "save_food_data fs entries = fs\<lparr>food_log_csv := Some (load_food_data fs @ entries)\<rparr>"

definition load_runs :: "files \<Rightarrow> run list" where
  "load_runs fs = (case runs_csv fs of Some rows \<Rightarrow> rows | None \<Rightarrow> [])"

definition save_run :: "files \<Rightarrow> run \<Rightarrow> files" where
  "save_run fs r = fs\<lparr>runs_csv := Some (load_runs fs @ [r])\<rparr>"

definition load_notes :: "files \<Rightarrow> note_row list" where
  "load_notes fs = (case notes_csv fs of Some rows \<Rightarrow> rows | None \<Rightarrow> [])"

definition save_notes :: "files \<Rightarrow> note_row list \<Rightarrow> files" where
  "save_notes fs df = fs\<lparr>notes_csv := Some df\<rparr>"

section \<open>Logging a run and the monthly summary\<close>

text \<open>
  The handler of the button \<^verbatim>\<open>Save Activity\<close>: the time \<open>t\<close> in minutes, the quotient
  \<open>t / km\<close>, and both rounded to two decimals.
\<close>

definition save_activity :: "files \<Rightarrow> date \<Rightarrow> real \<Rightarrow> int \<Rightarrow> int \<Rightarrow> int \<Rightarrow> py_error + files" where
  "save_activity fs d km h m s =
     (case to_minutes h m s of
        Inl e \<Rightarrow> Inl e
      | Inr t \<Rightarrow>
          (case fdiv64 t (Fin km) of
             Inl e \<Rightarrow> Inl e
           | Inr q \<Rightarrow>
               (case (py_round2 t, py_round2 q) of
                  (Fin tm, Fin pc) \<Rightarrow>
                    Inr (save_run fs
                      \<lparr>run_date = d, distance_km = km, time_min = tm, pace_min_per_km = pc\<rparr>)
                | _ \<Rightarrow> Inl InfiniteValue)))"

text \<open>\<^verbatim>\<open>Series.mean()\<close> of a column that is not empty.\<close>

definition mean :: "real list \<Rightarrow> real" where
  "mean xs = sum_list xs / of_nat (length xs)"

definition month_df :: "run list \<Rightarrow> int \<Rightarrow> int \<Rightarrow> run list" where
  "month_df df year month_num =
     filter (\<lambda>r. year_of (run_date r) = year \<and> month_of (run_date r) = month_num) df"

definition total_km :: "run list \<Rightarrow> int \<Rightarrow> int \<Rightarrow> real" where
  "total_km df year month_num = sum_list (map distance_km (month_df df year month_num))"

definition avg_km :: "run list \<Rightarrow> int \<Rightarrow> int \<Rightarrow> real" where
  "avg_km df year month_num =
     (if month_df df year month_num \<noteq> [] then mean (map distance_km (month_df df year month_num))
      else 0)"




section \<open>Notes\<close>

text \<open>
  \<^verbatim>\<open>s.strip() == ""\<close>: every character of \<open>s\<close> is white space. The ASCII white space of
  Python is modelled (tab, line feed, vertical tab, form feed, carriage return, the four
  separators \<open>0x1C\<close> to \<open>0x1F\<close> and the space).
\<close>

definition is_space :: "char \<Rightarrow> bool" where
  "is_space c = (of_char c \<in> {9, 10, 11, 12, 13, 28, 29, 30, 31, 32 :: nat})"

definition strip_empty :: "string \<Rightarrow> bool" where
  "strip_empty s = list_all is_space s"

text \<open>The handler of the form \<^verbatim>\<open>Add New Note\<close>; \<open>today\<close> is \<^verbatim>\<open>date.today()\<close>.\<close>

definition new_note_id :: "note_row list \<Rightarrow> int" where
  "new_note_id notes_df =
     (if notes_df \<noteq> [] then Max (set (map note_id notes_df)) + 1 else 1)"

definition add_note :: "files \<Rightarrow> date \<Rightarrow> string \<Rightarrow> string \<Rightarrow> files" where
  "add_note fs today note_title note_content =
     (let notes_df = load_notes fs
      in if strip_empty note_title \<or> strip_empty note_content then fs
         else save_notes fs
                (notes_df @
                 [\<lparr>note_id = new_note_id notes_df, note_date = today,
                   title = note_title, content = note_content\<rparr>]))"

text \<open>
  The handler of \<^verbatim>\<open>Delete\<close> for the row at index \<open>idx\<close>:
  \<^verbatim>\<open>notes_df.drop(idx).reset_index(drop=True)\<close>, a \<^verbatim>\<open>KeyError\<close> for an index that is not there.
\<close>

definition delete_note :: "files \<Rightarrow> nat \<Rightarrow> py_error + files" where
  "delete_note fs idx =
     (let notes_df = load_notes fs
      in if idx < length notes_df
         then Inr (save_notes fs (take idx notes_df @ drop (Suc idx) notes_df))
         else Inl KeyError)"

section \<open>Food and exercise\<close>

definition food_db :: "(string \<times> int) list" where
  "food_db =
     [(''Egg'', 78),
      (''Toast'', 75),
      (''Oatmeal'', 150),
      (''Chicken Breast (100g)'', 165),
      (''Rice (1 cup)'', 206),
      (''Salad'', 50),
      (''Apple'', 95),
      (''Banana'', 105),
      (''Pasta (1 cup)'', 200),
      (''Milk (1 cup)'', 122),
      (''Yogurt (100g)'', 59)]"

definition meals :: "string list" where
  "meals = [''Breakfast'', ''Lunch'', ''Dinner'']"

text \<open>
  \<^verbatim>\<open>sum([food_db[f] for f in foods_selected])\<close>, a \<^verbatim>\<open>KeyError\<close> for a food that is not in
  the table.
\<close>

fun food_calories :: "string list \<Rightarrow> py_error + int" where
  "food_calories [] = Inr 0"
| "food_calories (f # fs) =
     (case map_of food_db f of
        None \<Rightarrow> Inl KeyError
      | Some c \<Rightarrow> (case food_calories fs of Inl e \<Rightarrow> Inl e | Inr t \<Rightarrow> Inr (c + t)))"

text \<open>\<^verbatim>\<open>", ".join(foods_selected)\<close>.\<close>

fun join_comma :: "string list \<Rightarrow> string" where
  "join_comma [] = []"
| "join_comma [x] = x"
| "join_comma (x # y # ys) = x @ '', '' @ join_comma (y # ys)"

definition meal_entry :: "date \<Rightarrow> string \<Rightarrow> string list \<Rightarrow> py_error + food_entry" where
  "meal_entry log_date meal_name foods_selected =
     (case (if foods_selected \<noteq> [] then food_calories foods_selected else Inr 0) of
        Inl e \<Rightarrow> Inl e
      | Inr cal \<Rightarrow>
          Inr \<lparr>date = log_date, meal = meal_name,
               food = (if foods_selected \<noteq> [] then join_comma foods_selected else []),
               calories_in = cal, exercise = [], calories_out = 0\<rparr>)"

text \<open>The loop over the meals: the entries in the order of \<open>meals\<close>, or the first exception.\<close>

fun meal_entries :: "date \<Rightarrow> (string \<Rightarrow> string list) \<Rightarrow> string list \<Rightarrow> py_error + food_entry list" where
  "meal_entries log_date selected [] = Inr []"
| "meal_entries log_date selected (m # ms) =
     (case meal_entry log_date m (selected m) of
        Inl e \<Rightarrow> Inl e
      | Inr x \<Rightarrow> (case meal_entries log_date selected ms of
                    Inl e \<Rightarrow> Inl e
                  | Inr xs \<Rightarrow> Inr (x # xs)))"

text \<open>
  The handler of the button \<^verbatim>\<open>Save Today's Entry\<close>. \<open>selected\<close> gives the foods chosen in
  the multiselect of each meal, \<open>exercise_item\<close> and \<open>cal_out\<close> are the two exercise inputs.
\<close>

definition save_todays_entry ::
    "files \<Rightarrow> date \<Rightarrow> (string \<Rightarrow> string list) \<Rightarrow> string \<Rightarrow> int \<Rightarrow> py_error + files" where
  "save_todays_entry fs log_date selected exercise_item cal_out =
     (case meal_entries log_date selected meals of
        Inl e \<Rightarrow> Inl e
      | Inr es \<Rightarrow>
          (let es1 = map (\<lambda>entry. entry\<lparr>exercise := exercise_item\<rparr>) es;
               es2 = (if exercise_item \<noteq> [] \<and> cal_out > 0
                      then es1 @ [\<lparr>date = log_date, meal = ''Exercise'', food = [],
                                   calories_in = 0, exercise = exercise_item,
                                   calories_out = cal_out\<rparr>]
                      else es1)
           in Inr (save_food_data fs es2)))"

text \<open>
  The daily summary: \<^verbatim>\<open>groupby("date")\<close> with the sums of the two calorie columns, the
  groups in ascending order of the date, and the net calories of each group.
\<close>

record summary_row =
  day :: date
  sum_in :: int
  sum_out :: int
  net_calories :: int

definition daily_summary :: "food_entry list \<Rightarrow> summary_row list" where
  "daily_summary df_food =
     map (\<lambda>d. let grp = filter (\<lambda>e. date e = d) df_food;
                 cin = sum_list (map calories_in grp);
                 cout = sum_list (map calories_out grp)
             in \<lparr>day = d, sum_in = cin, sum_out = cout, net_calories = cin - cout\<rparr>)
         (sort (remdups (map date df_food)))"

section \<open>Example data\<close>

text \<open>The state in which none of the three files exists.\<close>

definition no_files :: files where
  "no_files = \<lparr>food_log_csv = None, runs_csv = None, notes_csv = None\<rparr>"


text \<open>Two food logs: two entries of one day, and three entries of two days out of order.\<close>

definition example_log :: "food_entry list" where
  "example_log =
     [\<lparr>date = (2024, 1, 1), meal = ''Breakfast'', food = ''Oatmeal'', calories_in = 500,
       exercise = [], calories_out = 0\<rparr>,
      \<lparr>date = (2024, 1, 1), meal = ''Lunch'', food = ''Salad'', calories_in = 300,
       exercise = ''Run'', calories_out = 100\<rparr>]"

definition example_log2 :: "food_entry list" where
  "example_log2 =
     [\<lparr>date = (2024, 2, 10), meal = ''Breakfast'', food = ''Egg'', calories_in = 78,
       exercise = [], calories_out = 0\<rparr>,
      \<lparr>date = (2023, 12, 31), meal = ''Dinner'', food = ''Pasta (1 cup)'', calories_in = 200,
       exercise = [], calories_out = 0\<rparr>,
      \<lparr>date = (2024, 2, 10), meal = ''Exercise'', food = [], calories_in = 0,
       exercise = ''Run'', calories_out = 300\<rparr>]"

text \<open>The food form with no food chosen for any meal.\<close>

definition nothing_selected :: "string \<Rightarrow> string list" where
  "nothing_selected m = []"

text \<open>The food form with an egg and a toast for breakfast and nothing else.\<close>

definition breakfast_selected :: "string \<Rightarrow> string list" where
  "breakfast_selected m = (if m = ''Breakfast'' then [''Egg'', ''Toast''] else [])"

section \<open>Evaluation of the formatting functions\<close>

lemma digits_small: "n < 10 \<Longrightarrow> digits n = [digit_char n]"
  by (simp add: digits.simps)

lemma digits_large: "\<not> n < 10 \<Longrightarrow> digits n = digits (n div 10) @ [digit_char (n mod 10)]"
  by (subst digits.simps) simp

lemmas fmt_eval = digits_small digits_large digit_char_def str_int_def fmt02d_def

lemmas num_eval = py_int_def py_round_def Let_def

lemma py_int_of_int: "py_int (of_int k) = k"
  by (simp add: py_int_def)

lemma py_int_nonneg: "0 \<le> x \<Longrightarrow> py_int x = \<lfloor>x\<rfloor>"
  by (simp add: py_int_def)

section \<open>Rounding to binary64\<close>

lemma py_round_error: "\<bar>of_int (py_round x) - x\<bar> \<le> 1 / 2"
  using floor_correct [of x] by (auto simp: py_round_def Let_def)

lemma bitlen_pos: "0 < n \<Longrightarrow> 1 \<le> bitlen n"
  using bitlen_eq_zero_iff [of n] bitlen_nonneg [of n] by linarith

text \<open>\<open>bexp\<close> is the binary exponent: \<open>2^(bexp x) \<le> |x| < 2^(bexp x + 1)\<close>.\<close>

lemma bexp_lower:
  assumes "x \<noteq> 0"
  shows "2 powi (bexp x) \<le> \<bar>x\<bar>"
proof (cases "1 \<le> \<bar>x\<bar>")
  case True
  define n where "n = \<lfloor>\<bar>x\<bar>\<rfloor>"
  have n: "0 < n" using True by (simp add: n_def)
  have e: "bexp x = bitlen n - 1" using True by (simp add: bexp_def n_def)
  have "(2::int) ^ nat (bitlen n - 1) \<le> n" using bitlen_bounds [OF n] by simp
  then have "(2::real) ^ nat (bitlen n - 1) \<le> of_int n"
    by (metis of_int_le_iff of_int_numeral of_int_power)
  also have "\<dots> \<le> \<bar>x\<bar>" by (simp add: n_def)
  finally show ?thesis using bitlen_pos [OF n] by (simp add: e power_int_nonneg_exp)
next
  case False
  define y where "y = 1 / \<bar>x\<bar>"
  have y: "1 < y" using False assms by (simp add: y_def)
  define m where "m = \<lceil>y\<rceil> - 1"
  have m: "0 < m" using y by (simp add: m_def less_ceiling_iff)
  have e: "bexp x = - bitlen m" using False by (simp add: bexp_def m_def y_def)
  have "m < 2 ^ nat (bitlen m)" using bitlen_bounds [OF m] by simp
  then have "\<lceil>y\<rceil> \<le> 2 ^ nat (bitlen m)" by (simp add: m_def)
  then have "of_int \<lceil>y\<rceil> \<le> (2::real) ^ nat (bitlen m)"
    by (metis of_int_le_iff of_int_numeral of_int_power)
  then have "y \<le> 2 ^ nat (bitlen m)" using le_of_int_ceiling [of y] by linarith
  then have "1 / 2 ^ nat (bitlen m) \<le> \<bar>x\<bar>"
    using assms by (simp add: y_def field_simps)
  then show ?thesis
    using bitlen_pos [OF m] by (simp add: e power_int_minus_divide power_int_nonneg_exp)
qed

lemma bexp_upper:
  assumes "x \<noteq> 0"
  shows "\<bar>x\<bar> < 2 powi (bexp x + 1)"
proof (cases "1 \<le> \<bar>x\<bar>")
  case True
  define n where "n = \<lfloor>\<bar>x\<bar>\<rfloor>"
  have n: "0 < n" using True by (simp add: n_def)
  have e: "bexp x = bitlen n - 1" using True by (simp add: bexp_def n_def)
  have "n + 1 \<le> 2 ^ nat (bitlen n)" using bitlen_bounds [OF n] by simp
  then have "of_int (n + 1) \<le> (2::real) ^ nat (bitlen n)"
    by (metis of_int_le_iff of_int_numeral of_int_power)
  moreover have "\<bar>x\<bar> < of_int (n + 1)" unfolding n_def by linarith
  ultimately show ?thesis using bitlen_pos [OF n] by (simp add: e power_int_nonneg_exp)
next
  case False
  define y where "y = 1 / \<bar>x\<bar>"
  have y: "1 < y" using False assms by (simp add: y_def)
  define m where "m = \<lceil>y\<rceil> - 1"
  have m: "0 < m" using y by (simp add: m_def less_ceiling_iff)
  have e: "bexp x = - bitlen m" using False by (simp add: bexp_def m_def y_def)
  have "(2::int) ^ nat (bitlen m - 1) \<le> m" using bitlen_bounds [OF m] by simp
  then have "(2::real) ^ nat (bitlen m - 1) \<le> of_int m"
    by (metis of_int_le_iff of_int_numeral of_int_power)
  moreover have "of_int m < y" unfolding m_def by linarith
  ultimately have "2 ^ nat (bitlen m - 1) < y" by linarith
  then have "\<bar>x\<bar> < 1 / 2 ^ nat (bitlen m - 1)"
    using assms by (simp add: y_def field_simps)
  moreover have "(2::real) powi (- bitlen m + 1) = 1 / 2 ^ nat (bitlen m - 1)"
    using bitlen_pos [OF m] power_int_minus_divide [of "2::real" "bitlen m - 1"]
    by (simp add: power_int_nonneg_exp)
  ultimately show ?thesis by (simp add: e)
qed

lemma bexp_normal:
  assumes "2 powi (- 1022) \<le> \<bar>x\<bar>"
  shows "- 1022 \<le> bexp x"
proof (rule ccontr)
  assume "\<not> - 1022 \<le> bexp x"
  then have "bexp x + 1 \<le> - 1022" by simp
  then have "(2::real) powi (bexp x + 1) \<le> 2 powi (- 1022)"
    by (intro power_int_increasing) simp_all
  moreover have "x \<noteq> 0" using assms by auto
  ultimately show False using bexp_upper [of x] assms by linarith
qed

text \<open>In the normal range the relative error of rounding is at most \<open>2^-53\<close>.\<close>

lemma round64_error:
  assumes "2 powi (- 1022) \<le> \<bar>x\<bar>"
  shows "\<bar>round64 x - x\<bar> \<le> \<bar>x\<bar> / 2 ^ 53"
proof -
  have x: "x \<noteq> 0" using assms by auto
  define ulp :: real where "ulp = 2 powi (bexp x - 52)"
  have u: "0 < ulp" by (simp add: ulp_def)
  have r: "round64 x = of_int (py_round (x / ulp)) * ulp"
    using x bexp_normal [OF assms] by (simp add: round64_def ulp_def max_def Let_def)
  have "\<bar>round64 x - x\<bar> = \<bar>of_int (py_round (x / ulp)) - x / ulp\<bar> * ulp"
  proof -
    have "of_int (py_round (x / ulp)) * ulp - x = (of_int (py_round (x / ulp)) - x / ulp) * ulp"
      using u by (simp add: field_simps)
    then show ?thesis using u by (simp add: r abs_mult)
  qed
  also have "\<dots> \<le> 1 / 2 * ulp"
    using u py_round_error [of "x / ulp"] by (intro mult_right_mono) simp_all
  also have "\<dots> = 2 powi (bexp x) / 2 ^ 53"
    by (simp add: ulp_def power_int_diff)
  also have "\<dots> \<le> \<bar>x\<bar> / 2 ^ 53"
    using bexp_lower [OF x] by (intro divide_right_mono) simp_all
  finally show ?thesis .
qed

lemma to_f64_normal:
  assumes "2 powi (- 1022) \<le> \<bar>q\<bar>" "\<bar>q\<bar> \<le> 2 ^ 1023"
  shows "to_f64 q = Fin (round64 q)"
proof -
  have "\<bar>q\<bar> / 2 ^ 53 \<le> \<bar>q\<bar> / 2"
    by (intro divide_left_mono) simp_all
  with round64_error [OF assms(1)] have "\<bar>round64 q\<bar> \<le> \<bar>q\<bar> + \<bar>q\<bar> / 2" by linarith
  also have "\<dots> \<le> 2 ^ 1023 + 2 ^ 1023 / 2" using assms(2) by linarith
  also have "\<dots> < (2::real) ^ 1024" by simp
  finally have "\<bar>round64 q\<bar> < 2 ^ 1024" .
  then have "\<not> 2 ^ 1024 \<le> round64 q" "\<not> round64 q \<le> - (2 ^ 1024)" by linarith+
  then show ?thesis by (simp add: to_f64_def Let_def)
qed

text \<open>The overflow test of \<open>to_f64\<close> by the binary exponent, for evaluation.\<close>

lemma to_f64_code [code]:
  "to_f64 x =
     (let r = round64 x
      in if r = 0 then Fin r
         else if 1024 \<le> bexp r then (if 0 < r then PosInf else NegInf)
         else Fin r)"
proof -
  define r where "r = round64 x"
  show ?thesis
  proof (cases "r = 0")
    case True
    then show ?thesis by (simp add: to_f64_def Let_def r_def [symmetric])
  next
    case False
    show ?thesis
    proof (cases "1024 \<le> bexp r")
      case True
      then have "(2::real) powi 1024 \<le> 2 powi (bexp r)"
        by (intro power_int_increasing) simp_all
      with bexp_lower [OF False] have "2 ^ 1024 \<le> \<bar>r\<bar>" by simp
      then show ?thesis using True False
        by (auto simp: to_f64_def Let_def r_def [symmetric] abs_if split: if_splits)
    next
      case b: False
      then have "bexp r + 1 \<le> 1024" by simp
      then have "(2::real) powi (bexp r + 1) \<le> 2 powi 1024"
        by (intro power_int_increasing) simp_all
      with bexp_upper [OF False] have "\<bar>r\<bar> < 2 ^ 1024" by simp
      then show ?thesis using b False
        by (auto simp: to_f64_def Let_def r_def [symmetric] abs_if split: if_splits)
    qed
  qed
qed

text \<open>
  A real that is zero or of normal magnitude and at most \<open>2^1023\<close> rounds to a finite
  double, with a relative error of at most \<open>2^-53\<close>.
\<close>

lemma round64_error0:
  assumes "x = 0 \<or> 2 powi (- 1022) \<le> \<bar>x\<bar>"
  shows "\<bar>round64 x - x\<bar> \<le> \<bar>x\<bar> / 2 ^ 53"
proof (cases "x = 0")
  case True
  then show ?thesis by (simp add: round64_def)
next
  case False
  with assms have "2 powi (- 1022) \<le> \<bar>x\<bar>" by simp
  then show ?thesis by (rule round64_error)
qed

lemma to_f64_fin:
  assumes "x = 0 \<or> 2 powi (- 1022) \<le> \<bar>x\<bar>" "\<bar>x\<bar> \<le> 2 ^ 1023"
  shows "to_f64 x = Fin (round64 x)"
proof (cases "x = 0")
  case True
  then show ?thesis by (simp add: to_f64_def round64_def)
next
  case False
  with assms have "2 powi (- 1022) \<le> \<bar>x\<bar>" by simp
  then show ?thesis using assms(2) by (rule to_f64_normal)
qed

text \<open>
  Relative errors: \<open>x\<close> approximates \<open>X\<close> within \<open>e\<close> when \<open>|x - X| \<le> e |X|\<close>. Rounding,
  products and quotients of approximations.
\<close>

lemma rel_abs:
  fixes x X e :: real
  assumes "\<bar>x - X\<bar> \<le> e * \<bar>X\<bar>"
  shows "\<bar>x\<bar> \<le> (1 + e) * \<bar>X\<bar>" and "(1 - e) * \<bar>X\<bar> \<le> \<bar>x\<bar>"
proof -
  have "\<bar>x\<bar> \<le> \<bar>X\<bar> + \<bar>x - X\<bar>" "\<bar>X\<bar> \<le> \<bar>x\<bar> + \<bar>x - X\<bar>" by linarith+
  with assms show "\<bar>x\<bar> \<le> (1 + e) * \<bar>X\<bar>" "(1 - e) * \<bar>X\<bar> \<le> \<bar>x\<bar>"
    by (simp_all add: algebra_simps)
qed

lemma rel_half:
  fixes x X e :: real
  assumes "\<bar>x - X\<bar> \<le> e * \<bar>X\<bar>" "0 \<le> e" "e \<le> 1 / 2"
  shows "\<bar>X\<bar> / 2 \<le> \<bar>x\<bar>" and "\<bar>x\<bar> \<le> 2 * \<bar>X\<bar>"
proof -
  have "e * \<bar>X\<bar> \<le> 1 / 2 * \<bar>X\<bar>" using assms(3) by (intro mult_right_mono) simp_all
  with rel_abs [OF assms(1)] show "\<bar>X\<bar> / 2 \<le> \<bar>x\<bar>" "\<bar>x\<bar> \<le> 2 * \<bar>X\<bar>"
    by (simp_all add: algebra_simps)
qed

lemma rel_sign:
  fixes x X e :: real
  assumes "\<bar>x - X\<bar> \<le> e * \<bar>X\<bar>" "0 \<le> e" "e \<le> 1 / 2"
  shows "0 < X \<Longrightarrow> 0 < x" and "0 \<le> X \<Longrightarrow> 0 \<le> x"
proof -
  have "e * \<bar>X\<bar> \<le> 1 / 2 * \<bar>X\<bar>" using assms(3) by (intro mult_right_mono) simp_all
  with assms(1) have h: "\<bar>x - X\<bar> \<le> \<bar>X\<bar> / 2" by simp
  show "0 < X \<Longrightarrow> 0 < x" using h by linarith
  show "0 \<le> X \<Longrightarrow> 0 \<le> x" using h by linarith
qed

lemma rel_round:
  fixes x X e u :: real
  assumes "\<bar>x - X\<bar> \<le> e * \<bar>X\<bar>" "0 \<le> e" "\<bar>r - x\<bar> \<le> u * \<bar>x\<bar>" "0 \<le> u"
  shows "\<bar>r - X\<bar> \<le> (e + (1 + e) * u) * \<bar>X\<bar>"
proof -
  have "u * \<bar>x\<bar> \<le> u * ((1 + e) * \<bar>X\<bar>)"
    using rel_abs(1) [OF assms(1)] assms(4) by (intro mult_left_mono) simp_all
  moreover have "\<bar>r - X\<bar> \<le> \<bar>r - x\<bar> + \<bar>x - X\<bar>" by linarith
  ultimately have "\<bar>r - X\<bar> \<le> u * ((1 + e) * \<bar>X\<bar>) + e * \<bar>X\<bar>"
    using assms(1,3) by linarith
  then show ?thesis by (simp add: algebra_simps)
qed

lemma rel_mult:
  fixes x X y Y e1 e2 :: real
  assumes "\<bar>x - X\<bar> \<le> e1 * \<bar>X\<bar>" "\<bar>y - Y\<bar> \<le> e2 * \<bar>Y\<bar>" "0 \<le> e1" "0 \<le> e2"
  shows "\<bar>x * y - X * Y\<bar> \<le> (e1 + e2 + e1 * e2) * \<bar>X * Y\<bar>"
proof -
  have "x * y - X * Y = (x - X) * y + X * (y - Y)" by (simp add: algebra_simps)
  then have "\<bar>x * y - X * Y\<bar> \<le> \<bar>x - X\<bar> * \<bar>y\<bar> + \<bar>X\<bar> * \<bar>y - Y\<bar>"
    by (metis abs_mult abs_triangle_ineq)
  also have "\<dots> \<le> (e1 * \<bar>X\<bar>) * ((1 + e2) * \<bar>Y\<bar>) + \<bar>X\<bar> * (e2 * \<bar>Y\<bar>)"
    using assms rel_abs(1) [OF assms(2)]
    by (intro add_mono mult_mono mult_left_mono) simp_all
  also have "\<dots> = (e1 + e2 + e1 * e2) * \<bar>X * Y\<bar>"
    by (simp add: abs_mult algebra_simps)
  finally show ?thesis .
qed

lemma rel_div:
  fixes w y Y e :: real
  assumes "\<bar>y - Y\<bar> \<le> e * \<bar>Y\<bar>" "0 \<le> e" "e \<le> 1 / 2" "Y \<noteq> 0"
  shows "\<bar>w / y - w / Y\<bar> \<le> 2 * e * \<bar>w / Y\<bar>"
proof -
  have yl: "\<bar>Y\<bar> / 2 \<le> \<bar>y\<bar>" by (rule rel_half(1) [OF assms(1,2,3)])
  with assms(4) have y0: "y \<noteq> 0" by auto
  have "w / y - w / Y = w * (Y - y) / (y * Y)"
    using y0 assms(4) by (simp add: field_simps)
  then have "\<bar>w / y - w / Y\<bar> = \<bar>w\<bar> * \<bar>y - Y\<bar> / (\<bar>y\<bar> * \<bar>Y\<bar>)"
    by (simp add: abs_mult abs_minus_commute)
  also have "\<dots> \<le> \<bar>w\<bar> * (e * \<bar>Y\<bar>) / (\<bar>y\<bar> * \<bar>Y\<bar>)"
    using assms(1) by (intro divide_right_mono mult_left_mono) simp_all
  also have "\<dots> = e * \<bar>w\<bar> / \<bar>y\<bar>" using assms(4) by simp
  also have "\<dots> \<le> e * \<bar>w\<bar> / (\<bar>Y\<bar> / 2)"
    using yl assms(2,4) by (intro divide_left_mono mult_nonneg_nonneg mult_pos_pos) simp_all
  also have "\<dots> = 2 * e * \<bar>w / Y\<bar>" by (simp add: abs_divide)
  finally show ?thesis .
qed

section \<open>Pace formatting\<close>

text \<open>
  C1. \<open>format_pace\<close> writes the whole minutes and the seconds rounded to the nearest,
  the seconds on two digits, and does not carry sixty seconds into the minutes:
  a pace of \<open>6.0\<close> is written \<open>6:00\<close>, a pace of \<open>5.999\<close> is written \<open>5:60\<close>.
\<close>

theorem format_pace_no_carry:
  "format_pace 6 = ''6:00'' \<and> format_pace (5999 / 1000) = ''5:60''"
  by (simp add: format_pace_def num_eval fmt_eval)

section \<open>Finish-time table\<close>

lemma time_rows_names:
  "time_rows p ds = Inr rows \<Longrightarrow> map fst rows = map fst ds"
proof (induction ds arbitrary: rows)
  case Nil
  then show ?case by simp
next
  case (Cons d ds)
  obtain name km where d: "d = (name, km)" by (cases d)
  from Cons.prems Cons.IH show ?case
    by (auto simp: d split: f64.splits sum.splits)
qed

text \<open>When the table is returned, its rows are the four distances in their order.\<close>

lemma table_names:
  "time_table_from_pace p = Inr rows \<Longrightarrow>
   map fst rows = [''5 km'', ''10 km'', ''Half Marathon (21.1 km)'', ''Full Marathon (42.2 km)'']"
  by (drule time_rows_names [of p distances, unfolded time_table_from_pace_def [symmetric]])
    (simp add: distances_def)

text \<open>
  C2. For a pace of 5.0 min/km the table is 25:00, 50:00, 01:45:29 and 03:30:58, as
  claimed. The seconds are truncated, not rounded. For a pace of 10.0 min/km the product
  with 42.195 is the double just below 421.95, whose seconds are 56.99999999999932: the
  table says 07:01:56 where the time is 7 h 1 min 57 s and the rounding of the
  specification gives 07:01:57. For a pace of 5.015625 min/km, where the products are
  exact, the table says 25:04 for 25 min 4.6875 s and 01:45:48 for 1 h 45 min 48.69 s,
  where the rounding gives 25:05 and 01:45:49.
\<close>

theorem time_table_from_pace_values:
  "time_table_from_pace 5 =
     Inr [(''5 km'', ''25:00''), (''10 km'', ''50:00''),
          (''Half Marathon (21.1 km)'', ''01:45:29''),
          (''Full Marathon (42.2 km)'', ''03:30:58'')] \<and>
   time_table_from_pace 10 =
     Inr [(''5 km'', ''50:00''), (''10 km'', ''01:40:00''),
          (''Half Marathon (21.1 km)'', ''03:30:58''),
          (''Full Marathon (42.2 km)'', ''07:01:56'')] \<and>
   finish_time_table_spec 10 =
     Inr [(''5 km'', ''50:00''), (''10 km'', ''01:40:00''),
          (''Half Marathon (21.1 km)'', ''03:30:58''),
          (''Full Marathon (42.2 km)'', ''07:01:57'')] \<and>
   time_table_from_pace (321 / 64) =
     Inr [(''5 km'', ''25:04''), (''10 km'', ''50:09''),
          (''Half Marathon (21.1 km)'', ''01:45:48''),
          (''Full Marathon (42.2 km)'', ''03:31:38'')] \<and>
   finish_time_table_spec (321 / 64) =
     Inr [(''5 km'', ''25:05''), (''10 km'', ''50:09''),
          (''Half Marathon (21.1 km)'', ''01:45:49''),
          (''Full Marathon (42.2 km)'', ''03:31:38'')]"
  by code_simp

section \<open>BMI categories\<close>

lemma bmi_category_range:
  "bmi_category b \<in> {''Underweight'', ''Normal weight'', ''Overweight'', ''Obese''}"
  by (simp add: bmi_category_def)

lemma bmi_category_bounds:
  "(bmi_category (Fin x) = ''Underweight'' \<longleftrightarrow> x < 185 / 10) \<and>
   (bmi_category (Fin x) = ''Normal weight'' \<longleftrightarrow> 185 / 10 \<le> x \<and> x < 25) \<and>
   (bmi_category (Fin x) = ''Overweight'' \<longleftrightarrow> 25 \<le> x \<and> x < 30) \<and>
   (bmi_category (Fin x) = ''Obese'' \<longleftrightarrow> 30 \<le> x)"
  by (auto simp: bmi_category_def f64_less_def)

text \<open>
  For a weight and a height between \<open>2^-200\<close> and \<open>2^200\<close> no step overflows or
  underflows: the BMI is a finite double within a relative error of \<open>2^-50\<close> of
  \<open>w / (h/100)\<^sup>2\<close>, from the three roundings of the quotient by 100, the square and the
  division.
\<close>

lemma calculate_bmi_value:
  assumes w: "1 / 2 ^ 200 \<le> w" "w \<le> 2 ^ 200" and h: "1 / 2 ^ 200 \<le> h" "h \<le> 2 ^ 200"
  shows "\<exists>b. calculate_bmi w h = Inr (Fin b) \<and>
           \<bar>b - w / (h / 100) ^ 2\<bar> \<le> w / (h / 100) ^ 2 / 2 ^ 50"
proof -
  define u :: real where "u = 1 / 2 ^ 53"
  have u0: "0 \<le> u" by (simp add: u_def)
  have w0: "0 < w" using w(1) by (rule less_le_trans [rotated]) simp
  have h0: "0 < h" using h(1) by (rule less_le_trans [rotated]) simp
  define q where "q = h / 100"
  have q0: "0 < q" using h0 by (simp add: q_def)
  have "(1 / 2 ^ 200) / 100 \<le> q" unfolding q_def using h(1) by (intro divide_right_mono) simp_all
  then have ql: "1 / 2 ^ 207 \<le> q" by simp
  have qu: "q \<le> 2 ^ 200" using h(2) h0 by (simp add: q_def)
  \<comment> \<open>the height in metres\<close>
  define a where "a = round64 q"
  have nq: "q = 0 \<or> 2 powi (- 1022) \<le> \<bar>q\<bar>"
    using ql q0 by (simp add: power_int_minus_divide)
  have ra: "\<bar>a - q\<bar> \<le> u * \<bar>q\<bar>"
    using round64_error0 [OF nq] by (simp add: a_def u_def)
  have uh: "u \<le> 1 / 2" by (simp add: u_def)
  have a0: "0 < a" using rel_sign(1) [OF ra u0 uh] q0 .
  have al: "q / 2 \<le> a" and au: "a \<le> 2 * q"
    using rel_half [OF ra u0 uh] a0 q0 by simp_all
  \<comment> \<open>its square\<close>
  define y where "y = a * a"
  define ey where "ey = u + u + u * u"
  have ey0: "0 \<le> ey" by (simp add: ey_def u_def)
  have ry: "\<bar>y - q * q\<bar> \<le> ey * \<bar>q * q\<bar>"
    unfolding y_def ey_def by (rule rel_mult [OF ra ra u0 u0])
  have y0: "0 < y" using a0 by (simp add: y_def)
  have "(q / 2) * (q / 2) \<le> y" unfolding y_def using al q0 by (intro mult_mono) simp_all
  moreover have "(1 / 2 ^ 207 / 2) * (1 / 2 ^ 207 / 2) \<le> (q / 2) * (q / 2)"
    using ql by (intro mult_mono) simp_all
  ultimately have yl: "1 / 2 ^ 416 \<le> y" by simp
  have "y \<le> (2 * q) * (2 * q)" unfolding y_def using au a0 q0 by (intro mult_mono) simp_all
  moreover have "(2 * q) * (2 * q) \<le> (2 * 2 ^ 200) * (2 * 2 ^ 200)"
    using qu q0 by (intro mult_mono) simp_all
  ultimately have yu: "y \<le> 2 ^ 402" by simp
  have ny: "y = 0 \<or> 2 powi (- 1022) \<le> \<bar>y\<bar>"
    using yl y0 by (simp add: power_int_minus_divide)
  have ny2: "\<bar>y\<bar> \<le> 2 ^ 1023" using yu y0 by simp
  define sq where "sq = round64 y"
  have fsq: "to_f64 (a * a) = Fin sq"
    using to_f64_fin [OF ny ny2] by (simp add: sq_def y_def)
  define es where "es = ey + (1 + ey) * u"
  have es0: "0 \<le> es" by (simp add: es_def ey_def u_def)
  have es4: "2 * es \<le> 1 / 2" by (simp add: es_def ey_def u_def)
  have esh: "es \<le> 1 / 2" using es4 es0 by simp
  have rs: "\<bar>sq - q * q\<bar> \<le> es * \<bar>q * q\<bar>"
    unfolding es_def
    using round64_error0 [OF ny] by (intro rel_round [OF ry ey0 _ u0]) (simp add: sq_def u_def)
  have qq0: "0 < q * q" using q0 by simp
  have s0: "0 < sq" using rel_sign(1) [OF rs es0 esh] qq0 .
  \<comment> \<open>the quotient\<close>
  define E where "E = w / (q * q)"
  have E0: "0 < E" using w0 qq0 by (simp add: E_def)
  have "q * q \<le> 2 ^ 200 * 2 ^ 200" using qu q0 by (intro mult_mono) simp_all
  then have "w / (2 ^ 200 * 2 ^ 200) \<le> E"
    unfolding E_def using w0 qq0 by (intro divide_left_mono) simp_all
  moreover have "(1 / 2 ^ 200) / (2 ^ 200 * 2 ^ 200) \<le> w / (2 ^ 200 * 2 ^ 200)"
    using w(1) by (intro divide_right_mono) simp_all
  ultimately have El: "1 / 2 ^ 600 \<le> E" by simp
  have "(1 / 2 ^ 207) * (1 / 2 ^ 207) \<le> q * q" using ql by (intro mult_mono) simp_all
  then have "E \<le> w / ((1 / 2 ^ 207) * (1 / 2 ^ 207))"
    unfolding E_def using w0 by (intro divide_left_mono) simp_all
  moreover have "w / ((1 / 2 ^ 207) * (1 / 2 ^ 207)) \<le> 2 ^ 200 / ((1 / 2 ^ 207) * (1 / 2 ^ 207))"
    using w(2) by (intro divide_right_mono) simp_all
  ultimately have Eu: "E \<le> 2 ^ 614" by simp
  define z where "z = w / sq"
  have rz: "\<bar>z - E\<bar> \<le> 2 * es * \<bar>E\<bar>"
    unfolding z_def E_def using q0 by (intro rel_div [OF rs es0 esh]) simp
  have es20: "0 \<le> 2 * es" using es0 by simp
  have z0: "0 < z" using rel_sign(1) [OF rz es20 es4] E0 .
  have zl: "E / 2 \<le> z" and zu: "z \<le> 2 * E"
    using rel_half [OF rz es20 es4] z0 E0 by simp_all
  have nz: "z = 0 \<or> 2 powi (- 1022) \<le> \<bar>z\<bar>"
    using zl El z0 by (simp add: power_int_minus_divide)
  have nz2: "\<bar>z\<bar> \<le> 2 ^ 1023" using zu Eu z0 by simp
  define b where "b = round64 z"
  have fb: "to_f64 (w / sq) = Fin b"
    using to_f64_fin [OF nz nz2] by (simp add: b_def z_def)
  have rb: "\<bar>b - E\<bar> \<le> (2 * es + (1 + 2 * es) * u) * \<bar>E\<bar>"
    using round64_error0 [OF nz] by (intro rel_round [OF rz es20 _ u0]) (simp add: b_def u_def)
  define c where "c = 2 * es + (1 + 2 * es) * u"
  have c: "c \<le> 1 / 2 ^ 50" by (simp add: c_def es_def ey_def u_def)
  have "c * E \<le> 1 / 2 ^ 50 * E" using c E0 by (intro mult_right_mono) simp_all
  moreover have "\<bar>b - E\<bar> \<le> c * E" using rb E0 by (simp add: c_def)
  ultimately have "\<bar>b - E\<bar> \<le> 1 / 2 ^ 50 * E" by linarith
  then have "\<bar>b - E\<bar> \<le> E / 2 ^ 50" by simp
  moreover have "calculate_bmi w h = Inr (Fin b)"
    using s0 by (simp add: calculate_bmi_def Let_def q_def [symmetric] a_def [symmetric] fsq
        fdiv64_def fb)
  moreover have "E = w / (h / 100) ^ 2" by (simp add: E_def q_def power2_eq_square)
  ultimately show ?thesis by auto
qed

lemma round64_24_9: "round64 (249 / 10) = 3504363460047667 / 140737488355328"
  by code_simp

lemma bmi_64_160: "calculate_bmi 64 160 = Inr (Fin (7036874417766399 / 281474976710656))"
  by code_simp

text \<open>From a height of \<open>2^600\<close> cm on, the square of the height in metres overflows.\<close>

lemma bmi_overflow_from:
  assumes "2 ^ 600 \<le> h"
  shows "calculate_bmi w h = Inl OverflowError"
proof -
  define q :: real where "q = h / 100"
  define a where "a = round64 q"
  have "2 ^ 600 / 100 \<le> q" unfolding q_def using assms by (intro divide_right_mono) simp_all
  then have ql: "2 ^ 593 \<le> q" by simp
  then have q0: "0 < q" by (rule less_le_trans [rotated]) simp
  have "(2::real) powi (- 1022) \<le> 2 ^ 593" by (simp add: power_int_minus_divide)
  with ql q0 have nq: "2 powi (- 1022) \<le> \<bar>q\<bar>" by simp
  have "\<bar>q\<bar> / 2 ^ 53 \<le> \<bar>q\<bar> / 2" by (intro divide_left_mono) simp_all
  with round64_error [OF nq] q0 have "q / 2 \<le> a" unfolding a_def by linarith
  with ql have al: "2 ^ 592 \<le> a" by simp
  define y where "y = a * a"
  have "2 ^ 592 * 2 ^ 592 \<le> y" unfolding y_def using al by (intro mult_mono) simp_all
  then have yl: "2 ^ 1184 \<le> y" by simp
  then have y0: "0 < y" by (rule less_le_trans [rotated]) simp
  have "(2::real) powi (- 1022) \<le> 2 ^ 1184" by (simp add: power_int_minus_divide)
  with yl y0 have ny: "2 powi (- 1022) \<le> \<bar>y\<bar>" by simp
  have "\<bar>y\<bar> / 2 ^ 53 \<le> \<bar>y\<bar> / 2" by (intro divide_left_mono) simp_all
  with round64_error [OF ny] y0 have "y / 2 \<le> round64 y" by linarith
  with yl have "2 ^ 1183 \<le> round64 y" by simp
  then have "2 ^ 1024 \<le> round64 y" by (rule order_trans [rotated]) simp
  then have "to_f64 (a * a) = PosInf" by (simp add: to_f64_def Let_def y_def)
  then show ?thesis
    by (simp add: calculate_bmi_def Let_def q_def [symmetric] a_def [symmetric])
qed

lemma bmi_overflow: "calculate_bmi 70 (2 ^ 600) = Inl OverflowError"
  by (rule bmi_overflow_from) simp

text \<open>
  C3 (as the code has it). \<open>bmi_category\<close> of any float is one of the four labels
  \<open>Underweight\<close>, \<open>Normal weight\<close>, \<open>Overweight\<close>, \<open>Obese\<close>, for the buckets \<open>< 18.5\<close>,
  \<open>[18.5, 25)\<close>, \<open>[25, 30)\<close> and \<open>\<ge> 30\<close> of the computed value: lower bounds belong to the
  bucket, upper bounds do not. For every weight \<open>w\<close> and height \<open>h\<close> between \<open>2^-200\<close>
  and \<open>2^200\<close>, \<open>calculate_bmi\<close> returns a finite double within a relative error of
  \<open>2^-50\<close> of \<open>w / (h/100)\<^sup>2\<close>, so its category is one of the four. The double of 24.9 has
  the label \<open>Normal weight\<close>, 25.0 the label \<open>Overweight\<close>.
\<close>

theorem bmi_category_buckets:
  assumes "1 / 2 ^ 200 \<le> w" "w \<le> 2 ^ 200" "1 / 2 ^ 200 \<le> h" "h \<le> 2 ^ 200"
  shows "(\<exists>b. calculate_bmi w h = Inr (Fin b) \<and>
              \<bar>b - w / (h / 100) ^ 2\<bar> \<le> w / (h / 100) ^ 2 / 2 ^ 50 \<and>
              bmi_category (Fin b) \<in> {''Underweight'', ''Normal weight'', ''Overweight'', ''Obese''}) \<and>
         (\<forall>x. bmi_category x \<in> {''Underweight'', ''Normal weight'', ''Overweight'', ''Obese''}) \<and>
         (\<forall>x. (bmi_category (Fin x) = ''Underweight'' \<longleftrightarrow> x < 185 / 10) \<and>
              (bmi_category (Fin x) = ''Normal weight'' \<longleftrightarrow> 185 / 10 \<le> x \<and> x < 25) \<and>
              (bmi_category (Fin x) = ''Overweight'' \<longleftrightarrow> 25 \<le> x \<and> x < 30) \<and>
              (bmi_category (Fin x) = ''Obese'' \<longleftrightarrow> 30 \<le> x)) \<and>
         bmi_category (Fin (round64 (249 / 10))) = ''Normal weight'' \<and>
         bmi_category (Fin 25) = ''Overweight''"
proof -
  from calculate_bmi_value [OF assms] obtain b where
    b: "calculate_bmi w h = Inr (Fin b)" "\<bar>b - w / (h / 100) ^ 2\<bar> \<le> w / (h / 100) ^ 2 / 2 ^ 50"
    by blast
  have "bmi_category (Fin (round64 (249 / 10))) = ''Normal weight''"
    by (simp add: round64_24_9 bmi_category_def f64_less_def)
  moreover have "bmi_category (Fin 25) = ''Overweight''"
    by (simp add: bmi_category_def f64_less_def)
  ultimately show ?thesis
    using b bmi_category_range bmi_category_bounds by blast
qed

text \<open>
  The theorem at 64 kg and 160 cm. The exact BMI is 25; the computed one is the double
  24.999999999999996, because the square of the double of 1.6 rounds up, and its label is
  \<open>Normal weight\<close>.
\<close>

theorem bmi_category_buckets_witness:
  "(1::real) / 2 ^ 200 \<le> 64 \<and> (64::real) \<le> 2 ^ 200 \<and>
   (1::real) / 2 ^ 200 \<le> 160 \<and> (160::real) \<le> 2 ^ 200 \<and>
   calculate_bmi 64 160 = Inr (Fin (7036874417766399 / 281474976710656)) \<and>
   (64::real) / (160 / 100) ^ 2 = 25 \<and>
   bmi_category (Fin (7036874417766399 / 281474976710656)) = ''Normal weight''"
proof -
  have h: "(1::real) / 2 ^ 200 \<le> 64" "(64::real) \<le> 2 ^ 200"
    "(1::real) / 2 ^ 200 \<le> 160" "(160::real) \<le> 2 ^ 200" by simp_all
  have "bmi_category (Fin (7036874417766399 / 281474976710656)) = ''Normal weight''"
    using bmi_category_buckets [OF h]
    by (simp add: bmi_64_160 bmi_category_def f64_less_def)
  moreover have "(64::real) / (160 / 100) ^ 2 = 25" by (simp add: power2_eq_square)
  ultimately show ?thesis using h bmi_64_160 by simp
qed

text \<open>
  C3 as the specification states it fails twice: the category of a BMI of 24.9 is the
  string \<open>Normal weight\<close>, not \<open>Normal\<close>; and for a weight of 70 and a height of \<open>2^600\<close>,
  both positive, \<open>calculate_bmi\<close> raises and there is no category.
\<close>

theorem bmi_category_label_counterexample:
  "bmi_category (Fin (round64 (249 / 10))) \<noteq> ''Normal'' \<and>
   calculate_bmi 70 (2 ^ 600) = Inl OverflowError"
  using bmi_overflow by (simp add: bmi_category_def)

section \<open>The stored time and pace of a run\<close>

lemma py_round_nonneg: "0 \<le> x \<Longrightarrow> 0 \<le> py_round x"
  by (simp add: py_round_def Let_def)

lemma round2_error: "\<bar>round2 x - x\<bar> \<le> 1 / 200"
  using py_round_error [of "x * 100"] by (simp add: round2_def field_simps)

lemma round2_normal:
  assumes "0 \<le> x"
  shows "0 \<le> round2 x" and "round2 x = 0 \<or> 2 powi (- 1022) \<le> \<bar>round2 x\<bar>"
proof -
  have k: "0 \<le> py_round (x * 100)" using assms by (intro py_round_nonneg) simp
  then show "0 \<le> round2 x" by (simp add: round2_def)
  show "round2 x = 0 \<or> 2 powi (- 1022) \<le> \<bar>round2 x\<bar>"
  proof (cases "py_round (x * 100) = 0")
    case True
    then show ?thesis by (simp add: round2_def)
  next
    case False
    with k have "1 \<le> py_round (x * 100)" by simp
    then have "(1::real) \<le> of_int (py_round (x * 100))" by simp
    then have "1 / 100 \<le> round2 x" by (simp add: round2_def)
    moreover have "(2::real) powi (- 1022) \<le> 1 / 100" by (simp add: power_int_minus_divide)
    ultimately show ?thesis by simp
  qed
qed

lemma round2_stage:
  assumes x: "0 \<le> x" "x \<le> 2 ^ 1000" and r: "\<bar>x - X\<bar> \<le> e * \<bar>X\<bar>" and X: "0 \<le> X"
    and e: "0 \<le> e" "e \<le> 5 / 2 ^ 53"
  shows "py_round2 (Fin x) = Fin (round64 (round2 x))"
    and "\<bar>round64 (round2 x) - X\<bar> \<le> 1 / 200 + (X + 1) / 2 ^ 50"
proof -
  define Y where "Y = round2 x"
  have Y0: "0 \<le> Y" and Yn: "Y = 0 \<or> 2 powi (- 1022) \<le> \<bar>Y\<bar>"
    using round2_normal [OF x(1)] by (simp_all add: Y_def)
  have Yx: "\<bar>Y - x\<bar> \<le> 1 / 200" unfolding Y_def by (rule round2_error)
  have "Y \<le> 2 ^ 1000 + 1" using Yx x(2) by linarith
  also have "\<dots> \<le> (2::real) ^ 1023" by simp
  finally have Yu: "\<bar>Y\<bar> \<le> 2 ^ 1023" using Y0 by simp
  show "py_round2 (Fin x) = Fin (round64 (round2 x))"
    using to_f64_fin [OF Yn Yu] by (simp add: py_round2_def Y_def)
  have rY: "\<bar>round64 Y - Y\<bar> \<le> Y / 2 ^ 53"
    using round64_error0 [OF Yn] Y0 by simp
  have "e * \<bar>X\<bar> \<le> 5 / 2 ^ 53 * \<bar>X\<bar>" using e(2) by (intro mult_right_mono) simp_all
  with r X have xX: "\<bar>x - X\<bar> \<le> 5 * X / 2 ^ 53" by simp
  have "5 * X / 2 ^ 53 \<le> X" using X by (simp add: field_simps)
  with xX have "x \<le> 2 * X" by linarith
  with Yx have "Y \<le> 2 * X + 1 / 200" by linarith
  then have "Y / 2 ^ 53 \<le> (2 * X + 1 / 200) / 2 ^ 53" by (intro divide_right_mono) simp_all
  with rY have "\<bar>round64 Y - Y\<bar> \<le> (2 * X + 1 / 200) / 2 ^ 53" by linarith
  with Yx xX have "\<bar>round64 Y - X\<bar> \<le> (2 * X + 1 / 200) / 2 ^ 53 + 1 / 200 + 5 * X / 2 ^ 53"
    by linarith
  also have "\<dots> \<le> 1 / 200 + (X + 1) / 2 ^ 50" using X by (simp add: field_simps)
  finally show "\<bar>round64 (round2 x) - X\<bar> \<le> 1 / 200 + (X + 1) / 2 ^ 50"
    by (simp add: Y_def)
qed

lemma to_minutes_value:
  assumes h: "0 \<le> h" "h \<le> 2 ^ 53" and m: "0 \<le> m" "m \<le> 2 ^ 53" and s: "0 \<le> s" "s \<le> 59"
  shows "\<exists>t. to_minutes h m s = Inr (Fin t) \<and> 0 \<le> t \<and> t \<le> 2 ^ 61 \<and>
           (of_int (h * 60 + m) + of_int s / 60 = (0::real) \<or> 1 / 120 \<le> t) \<and>
           \<bar>t - (of_int (h * 60 + m) + of_int s / 60)\<bar>
             \<le> 3 / 2 ^ 53 * \<bar>of_int (h * 60 + m) + of_int s / 60 :: real\<bar>"
proof -
  define u :: real where "u = 1 / 2 ^ 53"
  have u0: "0 \<le> u" and uh: "u \<le> 1 / 2" by (simp_all add: u_def)
  define N where "N = h * 60 + m"
  define A :: real where "A = of_int N"
  define B :: real where "B = of_int s / 60"
  have N0: "0 \<le> N" and Nu: "N \<le> 61 * 2 ^ 53" using h m by (simp_all add: N_def)
  have A0: "0 \<le> A" using N0 by (simp add: A_def)
  have "A \<le> of_int (61 * 2 ^ 53)" unfolding A_def using Nu by (intro of_int_le_iff [THEN iffD2])
  then have Au: "A \<le> 2 ^ 59" by simp
  have An: "A = 0 \<or> 2 powi (- 1022) \<le> \<bar>A\<bar>"
  proof (cases "N = 0")
    case True then show ?thesis by (simp add: A_def)
  next
    case False
    with N0 have "1 \<le> N" by simp
    then have "1 \<le> A" by (simp add: A_def)
    moreover have "(2::real) powi (- 1022) \<le> 1" by (simp add: power_int_minus_divide)
    ultimately show ?thesis by simp
  qed
  have A1: "A = 0 \<or> 1 \<le> A"
  proof (cases "N = 0")
    case True then show ?thesis by (simp add: A_def)
  next
    case False
    with N0 have "1 \<le> N" by simp
    then show ?thesis by (simp add: A_def)
  qed
  have B0: "0 \<le> B" and Bu: "B \<le> 1" using s by (simp_all add: B_def)
  have B1: "B = 0 \<or> 1 / 60 \<le> B"
  proof (cases "s = 0")
    case True then show ?thesis by (simp add: B_def)
  next
    case False
    with s have "1 \<le> s" by simp
    then have "(1::real) \<le> of_int s" by simp
    then show ?thesis by (simp add: B_def)
  qed
  have Bn: "B = 0 \<or> 2 powi (- 1022) \<le> \<bar>B\<bar>"
  proof -
    have "(2::real) powi (- 1022) \<le> 1 / 60" by (simp add: power_int_minus_divide)
    with B1 show ?thesis by auto
  qed
  define a where "a = round64 A"
  define b where "b = round64 B"
  have fa: "float_of_int (h * 60 + m) = Inr a"
    using to_f64_fin [OF An] Au A0 by (simp add: float_of_int_def a_def A_def N_def)
  have fb: "int_div s 60 = Inr b"
    using to_f64_fin [OF Bn] Bu B0 by (simp add: int_div_def b_def B_def)
  have ra: "\<bar>a - A\<bar> \<le> u * \<bar>A\<bar>" using round64_error0 [OF An] by (simp add: a_def u_def)
  have rb: "\<bar>b - B\<bar> \<le> u * \<bar>B\<bar>" using round64_error0 [OF Bn] by (simp add: b_def u_def)
  have a0: "0 \<le> a" using rel_sign(2) [OF ra u0 uh] A0 .
  have b0: "0 \<le> b" using rel_sign(2) [OF rb u0 uh] B0 .
  define t where "t = A + B"
  have t0: "0 \<le> t" using A0 B0 by (simp add: t_def)
  define S where "S = a + b"
  have "\<bar>S - t\<bar> \<le> \<bar>a - A\<bar> + \<bar>b - B\<bar>" unfolding S_def t_def by linarith
  also have "\<dots> \<le> u * \<bar>A\<bar> + u * \<bar>B\<bar>" using ra rb by linarith
  also have "\<dots> = u * \<bar>t\<bar>" using A0 B0 by (simp add: t_def algebra_simps)
  finally have rS: "\<bar>S - t\<bar> \<le> u * \<bar>t\<bar>" .
  have S0: "0 \<le> S" using a0 b0 by (simp add: S_def)
  have Sl: "t / 2 \<le> S" and Su: "S \<le> 2 * t"
    using rel_half [OF rS u0 uh] S0 t0 by simp_all
  have t1: "t = 0 \<or> 1 / 60 \<le> t" using A1 B1 A0 B0 by (auto simp: t_def)
  have Sn: "S = 0 \<or> 2 powi (- 1022) \<le> \<bar>S\<bar>"
  proof (cases "t = 0")
    case True
    with Su S0 show ?thesis by simp
  next
    case False
    with t1 have "1 / 60 \<le> t" by simp
    with Sl have "1 / 120 \<le> S" by linarith
    moreover have "(2::real) powi (- 1022) \<le> 1 / 120" by (simp add: power_int_minus_divide)
    ultimately show ?thesis by simp
  qed
  have tu: "t \<le> 2 ^ 59 + 1" using Au Bu by (simp add: t_def)
  then have "S \<le> 2 * (2 ^ 59 + 1)" using Su by simp
  also have "\<dots> \<le> (2::real) ^ 61" by simp
  finally have Su2: "S \<le> 2 ^ 61" .
  then have "S \<le> (2::real) ^ 1023" by (rule order_trans) simp
  then have SU: "\<bar>S\<bar> \<le> 2 ^ 1023" using S0 by simp
  define t64 where "t64 = round64 S"
  have ft: "to_f64 (a + b) = Fin t64" using to_f64_fin [OF Sn SU] by (simp add: t64_def S_def)
  have rt: "\<bar>t64 - t\<bar> \<le> (u + (1 + u) * u) * \<bar>t\<bar>"
    using round64_error0 [OF Sn] by (intro rel_round [OF rS u0 _ u0]) (simp add: t64_def u_def)
  have e1: "u + (1 + u) * u \<le> 3 / 2 ^ 53" by (simp add: u_def)
  have e1h: "u + (1 + u) * u \<le> 1 / 2" "0 \<le> u + (1 + u) * u" by (simp_all add: u_def)
  have "(u + (1 + u) * u) * \<bar>t\<bar> \<le> 3 / 2 ^ 53 * \<bar>t\<bar>" using e1 by (intro mult_right_mono) simp_all
  with rt have rt3: "\<bar>t64 - t\<bar> \<le> 3 / 2 ^ 53 * \<bar>t\<bar>" by linarith
  have t640: "0 \<le> t64" using rel_sign(2) [OF rt e1h(2) e1h(1)] t0 .
  have tl: "t / 2 \<le> t64" and tu2: "t64 \<le> 2 * t"
    using rel_half [OF rt e1h(2) e1h(1)] t640 t0 by simp_all
  have "t64 \<le> 2 * (2 ^ 59 + 1)" using tu tu2 by simp
  also have "\<dots> \<le> (2::real) ^ 61" by simp
  finally have t64u: "t64 \<le> 2 ^ 61" .
  have t64l: "t = 0 \<or> 1 / 120 \<le> t64" using t1 tl by auto
  have "to_minutes h m s = Inr (Fin t64)"
    by (simp add: to_minutes_def fa fb ft)
  with t640 t64u t64l rt3 show ?thesis
    unfolding t_def A_def B_def N_def by blast
qed


text \<open>
  C4 (as the code has it). For hours and minutes between 0 and \<open>2^53\<close>, seconds between
  0 and 59 and a distance between \<open>2^-900\<close> and \<open>2^900\<close> km, saving an activity appends
  one run to the run log. With \<open>t\<close> the float \<open>h * 60 + m + s / 60\<close>, its time is \<open>t\<close>
  rounded to two decimals and its pace is the float quotient \<open>t / km\<close> rounded to two
  decimals. The stored time is within \<open>0.005 + (T + 1) / 2^50\<close> of the exact time \<open>T\<close>
  and the stored pace within \<open>0.005 + (T / km + 1) / 2^50\<close> of \<open>T / km\<close>; the pace is
  computed from the unrounded time, not from the stored one.
\<close>

theorem save_activity_rounds:
  assumes h: "0 \<le> h" "h \<le> 2 ^ 53" and m: "0 \<le> m" "m \<le> 2 ^ 53" and s: "0 \<le> s" "s \<le> 59"
    and km: "1 / 2 ^ 900 \<le> km" "km \<le> 2 ^ 900"
  shows "\<exists>t r. to_minutes h m s = Inr (Fin t) \<and>
           save_activity fs d km h m s = Inr (fs\<lparr>runs_csv := Some (load_runs fs @ [r])\<rparr>) \<and>
           run_date r = d \<and> distance_km r = km \<and>
           time_min r = round64 (round2 t) \<and>
           pace_min_per_km r = round64 (round2 (round64 (t / km))) \<and>
           \<bar>time_min r - (of_int (h * 60 + m) + of_int s / 60)\<bar>
             \<le> 1 / 200 + (of_int (h * 60 + m) + of_int s / 60 + 1) / 2 ^ 50 \<and>
           \<bar>pace_min_per_km r - (of_int (h * 60 + m) + of_int s / 60) / km\<bar>
             \<le> 1 / 200 + ((of_int (h * 60 + m) + of_int s / 60) / km + 1) / 2 ^ 50"
proof -
  define T :: real where "T = of_int (h * 60 + m) + of_int s / 60"
  from to_minutes_value [OF h m s] obtain t where
    tm: "to_minutes h m s = Inr (Fin t)" and t0: "0 \<le> t" and tu: "t \<le> 2 ^ 61"
    and tl: "T = 0 \<or> 1 / 120 \<le> t" and rt: "\<bar>t - T\<bar> \<le> 3 / 2 ^ 53 * \<bar>T\<bar>"
    unfolding T_def by blast
  have T0: "0 \<le> T" using h m s by (simp add: T_def)
  have k0: "0 < km" using km(1) by (rule less_le_trans [rotated]) simp
  have e3: "(0::real) \<le> 3 / 2 ^ 53" "(3::real) / 2 ^ 53 \<le> 1 / 2" "(3::real) / 2 ^ 53 \<le> 5 / 2 ^ 53"
    by simp_all
  have Tt: "T \<le> 2 * t" using rel_half(1) [OF rt e3(1,2)] T0 t0 by simp
  \<comment> \<open>the pace\<close>
  define P where "P = T / km"
  have P0: "0 \<le> P" using T0 k0 by (simp add: P_def)
  define Q where "Q = t / km"
  have Q0: "0 \<le> Q" using t0 k0 by (simp add: Q_def)
  have "Q - P = (t - T) / km" by (simp add: Q_def P_def diff_divide_distrib)
  then have "\<bar>Q - P\<bar> = \<bar>t - T\<bar> / km" using k0 by simp
  also have "\<dots> \<le> (3 / 2 ^ 53 * \<bar>T\<bar>) / km" using rt k0 by (intro divide_right_mono) simp_all
  also have "\<dots> = 3 / 2 ^ 53 * \<bar>P\<bar>" using k0 by (simp add: P_def)
  finally have rQ: "\<bar>Q - P\<bar> \<le> 3 / 2 ^ 53 * \<bar>P\<bar>" .
  have Qn: "Q = 0 \<or> 2 powi (- 1022) \<le> \<bar>Q\<bar>"
  proof (cases "T = 0")
    case True
    with rt have "t = 0" by simp
    then show ?thesis by (simp add: Q_def)
  next
    case False
    with tl have "1 / 120 \<le> t" by simp
    then have "1 / 120 / km \<le> Q" unfolding Q_def using k0 by (intro divide_right_mono) simp_all
    moreover have "1 / 120 / 2 ^ 900 \<le> 1 / 120 / km"
      using km(2) k0 by (intro divide_left_mono) simp_all
    moreover have "(2::real) powi (- 1022) \<le> 1 / 120 / 2 ^ 900"
      by (simp add: power_int_minus_divide)
    ultimately show ?thesis using Q0 by simp
  qed
  have "Q \<le> 2 ^ 61 / km" unfolding Q_def using tu k0 by (intro divide_right_mono) simp_all
  moreover have "2 ^ 61 / km \<le> 2 ^ 61 / (1 / 2 ^ 900)"
    using km(1) by (intro divide_left_mono) simp_all
  ultimately have Qu: "Q \<le> 2 ^ 961" by simp
  then have "Q \<le> (2::real) ^ 1023" by (rule order_trans) simp
  then have QU: "\<bar>Q\<bar> \<le> 2 ^ 1023" using Q0 by simp
  define q where "q = round64 Q"
  have fq: "fdiv64 (Fin t) (Fin km) = Inr (Fin q)"
    using k0 to_f64_fin [OF Qn QU] by (simp add: fdiv64_def q_def Q_def)
  define e2 :: real where "e2 = 3 / 2 ^ 53 + (1 + 3 / 2 ^ 53) * (1 / 2 ^ 53)"
  have e2: "0 \<le> e2" "e2 \<le> 1 / 2" "e2 \<le> 5 / 2 ^ 53" by (simp_all add: e2_def)
  have rq: "\<bar>q - P\<bar> \<le> e2 * \<bar>P\<bar>"
    unfolding e2_def
    using round64_error0 [OF Qn] by (intro rel_round [OF rQ e3(1)]) (simp_all add: q_def)
  have q0: "0 \<le> q" using rel_sign(2) [OF rq e2(1,2)] P0 .
  have "q \<le> 2 * P" using rel_half(2) [OF rq e2(1,2)] q0 P0 by simp
  moreover have "P \<le> 2 * Q" using Tt k0 by (simp add: P_def Q_def field_simps)
  ultimately have "q \<le> 4 * 2 ^ 961" using Qu by simp
  then have qu: "q \<le> 2 ^ 1000" by (rule order_trans) simp
  have tu2: "t \<le> 2 ^ 1000" using tu by (rule order_trans) simp
  \<comment> \<open>the two rounded values\<close>
  note st = round2_stage [OF t0 tu2 rt T0 e3(1,3)]
  note sq = round2_stage [OF q0 qu rq P0 e2(1,3)]
  define r where "r = \<lparr>run_date = d, distance_km = km, time_min = round64 (round2 t),
    pace_min_per_km = round64 (round2 q)\<rparr>"
  have "save_activity fs d km h m s = Inr (fs\<lparr>runs_csv := Some (load_runs fs @ [r])\<rparr>)"
    by (simp add: save_activity_def tm fq st(1) sq(1) save_run_def r_def)
  moreover have "time_min r = round64 (round2 t)"
    "pace_min_per_km r = round64 (round2 (round64 (t / km)))"
    "run_date r = d" "distance_km r = km"
    by (simp_all add: r_def q_def Q_def)
  moreover have "\<bar>time_min r - T\<bar> \<le> 1 / 200 + (T + 1) / 2 ^ 50"
    using st(2) by (simp add: r_def)
  moreover have "\<bar>pace_min_per_km r - T / km\<bar> \<le> 1 / 200 + (T / km + 1) / 2 ^ 50"
    using sq(2) by (simp add: r_def P_def)
  ultimately show ?thesis using tm unfolding T_def by blast
qed

lemma save_activity_2km:
  "save_activity no_files (2024, 1, 1) 2 0 5 21 =
     Inr (no_files\<lparr>runs_csv := Some [\<lparr>run_date = (2024, 1, 1), distance_km = 2,
            time_min = round64 (535 / 100), pace_min_per_km = round64 (267 / 100)\<rparr>]\<rparr>)"
  by code_simp

text \<open>
  The theorem for a run of 2 km in 5 min 21 s, saved when no run log exists. The exact
  pace is 2.675; the float quotient is the double just below it, and the stored pace is
  2.67.
\<close>

theorem save_activity_rounds_witness:
  "(0::int) \<le> 0 \<and> (0::int) \<le> 2 ^ 53 \<and> (0::int) \<le> 5 \<and> (5::int) \<le> 2 ^ 53 \<and>
   (0::int) \<le> 21 \<and> (21::int) \<le> 59 \<and> (1::real) / 2 ^ 900 \<le> 2 \<and> (2::real) \<le> 2 ^ 900 \<and>
   save_activity no_files (2024, 1, 1) 2 0 5 21 =
     Inr (no_files\<lparr>runs_csv := Some [\<lparr>run_date = (2024, 1, 1), distance_km = 2,
            time_min = round64 (535 / 100), pace_min_per_km = round64 (267 / 100)\<rparr>]\<rparr>)"
proof -
  have h: "(0::int) \<le> 0" "(0::int) \<le> 2 ^ 53" "(0::int) \<le> 5" "(5::int) \<le> 2 ^ 53"
    "(0::int) \<le> 21" "(21::int) \<le> 59" "(1::real) / 2 ^ 900 \<le> 2" "(2::real) \<le> 2 ^ 900"
    by simp_all
  from save_activity_rounds [OF h, of no_files "(2024, 1, 1)"] save_activity_2km h
  show ?thesis by simp
qed

text \<open>
  C4 as the specification states it fails: for 3 km in 10 minutes the stored pace is 3.33,
  which is not the stored time 10.0 divided by the stored distance 3.
\<close>

theorem save_activity_counterexample:
  "pace_min_per_km (last (load_runs (projr (save_activity no_files (2024, 1, 1) 3 0 10 0)))) \<noteq>
   time_min (last (load_runs (projr (save_activity no_files (2024, 1, 1) 3 0 10 0)))) /
   distance_km (last (load_runs (projr (save_activity no_files (2024, 1, 1) 3 0 10 0))))"
  by code_simp

section \<open>Monthly average pace\<close>


section \<open>Note ids\<close>

lemma add_note_appends:
  "\<not> strip_empty t \<Longrightarrow> \<not> strip_empty c \<Longrightarrow>
   load_notes (add_note fs today t c) =
     load_notes fs @
     [\<lparr>note_id = new_note_id (load_notes fs), note_date = today, title = t, content = c\<rparr>]"
  by (simp add: add_note_def Let_def save_notes_def load_notes_def)

text \<open>
  C6. A note with a title and a content that are not blank is appended with the id
  \<open>max(existing ids) + 1\<close>, or 1 when there is no note. So the first note of an empty store
  has id 1, and after deleting it the next note has id 1 again.
\<close>

theorem note_id_is_max_plus_one:
  assumes "\<not> strip_empty t" "\<not> strip_empty c" "\<not> strip_empty t2" "\<not> strip_empty c2"
  shows "load_notes (add_note fs today t c) =
           load_notes fs @
           [\<lparr>note_id = (if load_notes fs = [] then 1
                        else Max (set (map note_id (load_notes fs))) + 1),
             note_date = today, title = t, content = c\<rparr>] \<and>
         (load_notes fs = [] \<longrightarrow>
            map note_id (load_notes (add_note fs today t c)) = [1] \<and>
            (\<exists>fs'. delete_note (add_note fs today t c) 0 = Inr fs' \<and>
                   load_notes fs' = [] \<and>
                   map note_id (load_notes (add_note fs' today2 t2 c2)) = [1]))"
proof -
  have a: "load_notes (add_note fs today t c) =
           load_notes fs @
           [\<lparr>note_id = (if load_notes fs = [] then 1
                        else Max (set (map note_id (load_notes fs))) + 1),
             note_date = today, title = t, content = c\<rparr>]"
    using assms(1,2) by (simp add: add_note_appends new_note_id_def)
  have b: "map note_id (load_notes (add_note fs today t c)) = [1] \<and>
            (\<exists>fs'. delete_note (add_note fs today t c) 0 = Inr fs' \<and>
                   load_notes fs' = [] \<and>
                   map note_id (load_notes (add_note fs' today2 t2 c2)) = [1])"
    if e: "load_notes fs = []"
  proof -
    define fs' where "fs' = save_notes (add_note fs today t c) []"
    have d: "delete_note (add_note fs today t c) 0 = Inr fs'"
      by (simp add: delete_note_def Let_def a e fs'_def)
    have l: "load_notes fs' = []"
      by (simp add: fs'_def save_notes_def load_notes_def)
    have "map note_id (load_notes (add_note fs' today2 t2 c2)) = [1]"
      using assms(3,4) by (simp add: add_note_appends l new_note_id_def)
    with d l show ?thesis by (simp add: a e)
  qed
  from a b show ?thesis by blast
qed

text \<open>The theorem for two notes added to a store without a notes file.\<close>

theorem note_id_is_max_plus_one_witness:
  "\<not> strip_empty ''Knee'' \<and> \<not> strip_empty ''Sore after 10 km'' \<and>
   \<not> strip_empty ''Plan'' \<and> \<not> strip_empty ''Rest day'' \<and>
   map note_id (load_notes (add_note no_files (2024, 3, 1) ''Knee'' ''Sore after 10 km'')) = [1] \<and>
   map note_id (load_notes (add_note (projr (delete_note
       (add_note no_files (2024, 3, 1) ''Knee'' ''Sore after 10 km'') 0))
       (2024, 3, 2) ''Plan'' ''Rest day'')) = [1]"
proof -
  have h: "\<not> strip_empty ''Knee''" "\<not> strip_empty ''Sore after 10 km''"
    "\<not> strip_empty ''Plan''" "\<not> strip_empty ''Rest day''"
    by (simp_all add: strip_empty_def is_space_def)
  have e: "load_notes no_files = []"
    by (simp add: no_files_def load_notes_def)
  from note_id_is_max_plus_one [OF h, of no_files "(2024, 3, 1)" "(2024, 3, 2)"] e h
  show ?thesis by auto
qed

section \<open>Daily summary\<close>

lemma daily_summary_days: "map day (daily_summary df) = sort (remdups (map date df))"
  by (simp add: daily_summary_def Let_def comp_def)

lemma daily_summary_rows:
  "r \<in> set (daily_summary df) \<Longrightarrow>
     sum_in r = (\<Sum>e\<leftarrow>filter (\<lambda>e. date e = day r) df. calories_in e) \<and>
     sum_out r = (\<Sum>e\<leftarrow>filter (\<lambda>e. date e = day r) df. calories_out e) \<and>
     net_calories r = sum_in r - sum_out r"
  by (auto simp: daily_summary_def Let_def)

lemma day_in_summary: "d \<in> date ` set df \<Longrightarrow> d \<in> set (map day (daily_summary df))"
  by (simp add: daily_summary_days)

text \<open>
  C7. The days of the daily summary are strictly ascending and are exactly the dates that
  occur in the food log: one row for each distinct date, none for a date without entries.
  The row of a date has the sum of \<open>calories_in\<close> and the sum of \<open>calories_out\<close> over the
  entries of that date, and their difference as net calories. For the log of two entries
  of 2024-01-01 with 500 in, 0 out and 300 in, 100 out, the only row is 800, 100, 700.
\<close>

theorem daily_summary_groups_by_date:
  "sorted_wrt (<) (map day (daily_summary df)) \<and>
   set (map day (daily_summary df)) = date ` set df \<and>
   (\<forall>r \<in> set (daily_summary df).
      sum_in r = (\<Sum>e\<leftarrow>filter (\<lambda>e. date e = day r) df. calories_in e) \<and>
      sum_out r = (\<Sum>e\<leftarrow>filter (\<lambda>e. date e = day r) df. calories_out e) \<and>
      net_calories r = sum_in r - sum_out r) \<and>
   daily_summary example_log =
     [\<lparr>day = (2024, 1, 1), sum_in = 800, sum_out = 100, net_calories = 700\<rparr>]"
proof -
  have "sorted_wrt (<) (map day (daily_summary df))"
    by (simp add: daily_summary_days strict_sorted_iff)
  moreover have "set (map day (daily_summary df)) = date ` set df"
    by (simp add: daily_summary_days)
  moreover have "daily_summary example_log =
     [\<lparr>day = (2024, 1, 1), sum_in = 800, sum_out = 100, net_calories = 700\<rparr>]"
    by (simp add: daily_summary_def example_log_def Let_def)
  ultimately show ?thesis using daily_summary_rows by blast
qed

text \<open>The theorem for a log of three entries on two days, the later day first.\<close>

theorem daily_summary_groups_by_date_witness:
  "daily_summary example_log2 =
     [\<lparr>day = (2023, 12, 31), sum_in = 200, sum_out = 0, net_calories = 200\<rparr>,
      \<lparr>day = (2024, 2, 10), sum_in = 78, sum_out = 300, net_calories = - 222\<rparr>] \<and>
   sorted_wrt (<) (map day (daily_summary example_log2)) \<and>
   set (map day (daily_summary example_log2)) = date ` set example_log2"
  using daily_summary_groups_by_date [of example_log2]
  by (simp add: daily_summary_def example_log2_def Let_def)

section \<open>Saving the food and exercise form\<close>

lemma food_calories_ok:
  "set fs \<subseteq> fst ` set food_db \<Longrightarrow> \<exists>c. food_calories fs = Inr c"
proof (induction fs)
  case Nil
  then show ?case by simp
next
  case (Cons f fs)
  then obtain c where c: "food_calories fs = Inr c" by auto
  from Cons.prems have "f \<in> fst ` set food_db" by simp
  then obtain k where "map_of food_db f = Some k"
    by (meson map_of_eq_None_iff not_Some_eq)
  with c show ?case by simp
qed

lemma meal_entry_ok:
  assumes "set foods \<subseteq> fst ` set food_db"
  shows "\<exists>x. meal_entry d m foods = Inr x \<and> date x = d \<and> meal x = m \<and> exercise x = [] \<and>
           calories_out x = 0 \<and> food x = join_comma foods \<and>
           food_calories foods = Inr (calories_in x)"
proof -
  from food_calories_ok [OF assms] obtain c where c: "food_calories foods = Inr c" ..
  show ?thesis
  proof (cases "foods = []")
    case True
    then show ?thesis by (simp add: meal_entry_def)
  next
    case False
    then show ?thesis by (simp add: meal_entry_def c)
  qed
qed

text \<open>
  C10. When every selected food is in the food table (the multiselect offers no other),
  saving the form for a date appends to the food log exactly three entries of that date,
  for Breakfast, Lunch and Dinner in this order, each with the joined names and the summed
  calories of its selection (the empty string and 0 when nothing is selected) and no
  calories out, followed by a fourth entry with meal \<open>Exercise\<close> and the calories burned
  if and only if the exercise text is not empty and the calories burned are positive.
  The date is then a day of the daily summary.
\<close>

theorem save_todays_entry_three_meals:
  assumes "\<forall>m \<in> set meals. set (selected m) \<subseteq> fst ` set food_db"
  shows "\<exists>fs' b l d.
     save_todays_entry fs log_date selected ex out = Inr fs' \<and>
     load_food_data fs' =
       load_food_data fs @ [b, l, d] @
       (if ex \<noteq> [] \<and> 0 < out
        then [\<lparr>date = log_date, meal = ''Exercise'', food = [], calories_in = 0,
               exercise = ex, calories_out = out\<rparr>]
        else []) \<and>
     map meal [b, l, d] = [''Breakfast'', ''Lunch'', ''Dinner''] \<and>
     map date [b, l, d] = [log_date, log_date, log_date] \<and>
     map calories_out [b, l, d] = [0, 0, 0] \<and>
     map (\<lambda>x. Inr (calories_in x)) [b, l, d] = map (\<lambda>m. food_calories (selected m)) meals \<and>
     map food [b, l, d] = map (\<lambda>m. join_comma (selected m)) meals \<and>
     (\<forall>(x, m) \<in> set (zip [b, l, d] meals).
        selected m = [] \<longrightarrow> food x = [] \<and> calories_in x = 0) \<and>
     log_date \<in> set (map day (daily_summary (load_food_data fs')))"
proof -
  from assms have s: "set (selected ''Breakfast'') \<subseteq> fst ` set food_db"
    "set (selected ''Lunch'') \<subseteq> fst ` set food_db"
    "set (selected ''Dinner'') \<subseteq> fst ` set food_db"
    by (simp_all add: meals_def)
  from meal_entry_ok [OF s(1), of log_date "''Breakfast''"] obtain b where
    b: "meal_entry log_date ''Breakfast'' (selected ''Breakfast'') = Inr b" "date b = log_date"
       "meal b = ''Breakfast''" "calories_out b = 0" "food b = join_comma (selected ''Breakfast'')"
       "food_calories (selected ''Breakfast'') = Inr (calories_in b)" by blast
  from meal_entry_ok [OF s(2), of log_date "''Lunch''"] obtain l where
    l: "meal_entry log_date ''Lunch'' (selected ''Lunch'') = Inr l" "date l = log_date"
       "meal l = ''Lunch''" "calories_out l = 0" "food l = join_comma (selected ''Lunch'')"
       "food_calories (selected ''Lunch'') = Inr (calories_in l)" by blast
  from meal_entry_ok [OF s(3), of log_date "''Dinner''"] obtain d where
    d: "meal_entry log_date ''Dinner'' (selected ''Dinner'') = Inr d" "date d = log_date"
       "meal d = ''Dinner''" "calories_out d = 0" "food d = join_comma (selected ''Dinner'')"
       "food_calories (selected ''Dinner'') = Inr (calories_in d)" by blast
  define b' l' d' where "b' = b\<lparr>exercise := ex\<rparr>" and "l' = l\<lparr>exercise := ex\<rparr>"
    and "d' = d\<lparr>exercise := ex\<rparr>"
  define fs' where "fs' = save_food_data fs ([b', l', d'] @
       (if ex \<noteq> [] \<and> 0 < out
        then [\<lparr>date = log_date, meal = ''Exercise'', food = [], calories_in = 0,
               exercise = ex, calories_out = out\<rparr>]
        else []))"
  have me: "meal_entries log_date selected meals = Inr [b, l, d]"
    by (simp add: meals_def b(1) l(1) d(1))
  have 1: "save_todays_entry fs log_date selected ex out = Inr fs'"
    by (simp add: save_todays_entry_def me Let_def fs'_def b'_def l'_def d'_def)
  have 2: "load_food_data fs' = load_food_data fs @ [b', l', d'] @
       (if ex \<noteq> [] \<and> 0 < out
        then [\<lparr>date = log_date, meal = ''Exercise'', food = [], calories_in = 0,
               exercise = ex, calories_out = out\<rparr>]
        else [])"
    by (simp add: fs'_def save_food_data_def load_food_data_def)
  have 3: "map meal [b', l', d'] = [''Breakfast'', ''Lunch'', ''Dinner'']"
    "map date [b', l', d'] = [log_date, log_date, log_date]"
    "map calories_out [b', l', d'] = [0, 0, 0]"
    "map (\<lambda>x. Inr (calories_in x)) [b', l', d'] = map (\<lambda>m. food_calories (selected m)) meals"
    "map food [b', l', d'] = map (\<lambda>m. join_comma (selected m)) meals"
    by (simp_all add: b'_def l'_def d'_def b l d meals_def)
  have 4: "\<forall>(x, m) \<in> set (zip [b', l', d'] meals).
             selected m = [] \<longrightarrow> food x = [] \<and> calories_in x = 0"
    using b(5,6) l(5,6) d(5,6) by (auto simp: b'_def l'_def d'_def meals_def)
  have "log_date \<in> date ` set (load_food_data fs')"
    by (simp add: 2 b'_def b(2))
  then have 5: "log_date \<in> set (map day (daily_summary (load_food_data fs')))"
    by (rule day_in_summary)
  show ?thesis
    by (rule exI [of _ fs'], rule exI [of _ b'], rule exI [of _ l'], rule exI [of _ d'])
      (intro conjI 1 2 3 4 5)
qed

text \<open>
  The theorem for a form saved with nothing selected and no exercise, when no food log
  exists: three entries with zero calories, and the date in the daily summary with zeros.
  With a breakfast and an exercise of 300 kcal there are four entries.
\<close>

theorem save_todays_entry_three_meals_witness:
  "map nothing_selected meals = [[], [], []] \<and>
   save_todays_entry no_files (2024, 5, 1) nothing_selected [] 0 =
     Inr (no_files\<lparr>food_log_csv := Some
       [\<lparr>date = (2024, 5, 1), meal = ''Breakfast'', food = [], calories_in = 0,
         exercise = [], calories_out = 0\<rparr>,
        \<lparr>date = (2024, 5, 1), meal = ''Lunch'', food = [], calories_in = 0,
         exercise = [], calories_out = 0\<rparr>,
        \<lparr>date = (2024, 5, 1), meal = ''Dinner'', food = [], calories_in = 0,
         exercise = [], calories_out = 0\<rparr>]\<rparr>) \<and>
   daily_summary (load_food_data (projr
       (save_todays_entry no_files (2024, 5, 1) nothing_selected [] 0))) =
     [\<lparr>day = (2024, 5, 1), sum_in = 0, sum_out = 0, net_calories = 0\<rparr>] \<and>
   map (\<lambda>e. (meal e, food e, calories_in e, exercise e, calories_out e))
     (load_food_data (projr
       (save_todays_entry no_files (2024, 5, 2) breakfast_selected ''Run'' 300))) =
     [(''Breakfast'', ''Egg, Toast'', 153, ''Run'', 0),
      (''Lunch'', [], 0, ''Run'', 0),
      (''Dinner'', [], 0, ''Run'', 0),
      (''Exercise'', [], 0, ''Run'', 300)]"
proof -
  have x: "map (\<lambda>e. (meal e, food e, calories_in e, exercise e, calories_out e))
     (load_food_data (projr
       (save_todays_entry no_files (2024, 5, 2) breakfast_selected ''Run'' 300))) =
     [(''Breakfast'', ''Egg, Toast'', 153, ''Run'', 0),
      (''Lunch'', [], 0, ''Run'', 0),
      (''Dinner'', [], 0, ''Run'', 0),
      (''Exercise'', [], 0, ''Run'', 300)]"
    by (simp add: save_todays_entry_def meals_def meal_entry_def breakfast_selected_def Let_def
        save_food_data_def load_food_data_def no_files_def food_db_def)
  have h: "\<forall>m \<in> set meals. set (nothing_selected m) \<subseteq> fst ` set food_db"
    by (simp add: nothing_selected_def)
  have e: "save_todays_entry no_files (2024, 5, 1) nothing_selected [] 0 =
     Inr (no_files\<lparr>food_log_csv := Some
       [\<lparr>date = (2024, 5, 1), meal = ''Breakfast'', food = [], calories_in = 0,
         exercise = [], calories_out = 0\<rparr>,
        \<lparr>date = (2024, 5, 1), meal = ''Lunch'', food = [], calories_in = 0,
         exercise = [], calories_out = 0\<rparr>,
        \<lparr>date = (2024, 5, 1), meal = ''Dinner'', food = [], calories_in = 0,
         exercise = [], calories_out = 0\<rparr>]\<rparr>)"
    by (simp add: save_todays_entry_def meals_def meal_entry_def nothing_selected_def Let_def
        save_food_data_def load_food_data_def no_files_def)
  have s: "daily_summary (load_food_data (projr
       (save_todays_entry no_files (2024, 5, 1) nothing_selected [] 0))) =
     [\<lparr>day = (2024, 5, 1), sum_in = 0, sum_out = 0, net_calories = 0\<rparr>]"
    unfolding e by (simp add: load_food_data_def no_files_def daily_summary_def Let_def)
  from save_todays_entry_three_meals [OF h, of no_files "(2024, 5, 1)" "[]" 0] e s x
  show ?thesis by (simp add: meals_def nothing_selected_def)
qed

section \<open>Pace and speed in binary64\<close>

text \<open>The error of two divisions of 60 with relative rounding error \<open>u\<close> each.\<close>

lemma round_trip_bound:
  fixes s p r u :: real
  assumes s: "0 < s" and u: "0 < u" "u \<le> 1 / 3"
    and p: "\<bar>p - 60 / s\<bar> \<le> 60 / s * u"
    and r: "\<bar>r - 60 / p\<bar> \<le> 60 / p * u"
  shows "\<bar>r - s\<bar> \<le> 3 * s * u"
proof -
  define q where "q = 60 / s"
  have q: "0 < q" using s by (simp add: q_def)
  have sq: "s = 60 / q" using s by (simp add: q_def)
  have "q * u \<le> q * (1 / 3)" using q u by (intro mult_left_mono) simp_all
  with p have pl: "2 / 3 * q \<le> p" unfolding q_def [symmetric] by linarith
  with q have p0: "0 < p" by linarith
  have "60 / p \<le> 60 / (2 / 3 * q)"
    using pl q by (intro divide_left_mono) simp_all
  also have "\<dots> = 3 / 2 * s" using q by (simp add: sq)
  finally have ps: "60 / p \<le> 3 / 2 * s" .
  define e where "e = q - p"
  have "60 / p - s = 60 * e / (p * q)"
    using p0 q by (simp add: sq e_def field_simps)
  then have "\<bar>60 / p - s\<bar> = 60 * \<bar>e\<bar> / (p * q)"
    using p0 q by (simp add: abs_mult)
  also have "\<dots> \<le> 60 * (q * u) / (p * q)"
    using p p0 q unfolding q_def [symmetric] e_def
    by (intro divide_right_mono mult_left_mono) simp_all
  also have "\<dots> = 60 / p * u" using q p0 by simp
  finally have "\<bar>60 / p - s\<bar> \<le> 60 / p * u" .
  with r have "\<bar>r - s\<bar> \<le> 2 * (60 / p * u)" by linarith
  also have "\<dots> \<le> 2 * (3 / 2 * s * u)"
    using ps u by (intro mult_left_mono mult_right_mono) simp_all
  finally show ?thesis by simp
qed

text \<open>
  C9 (as the code has it). Both conversions divide 60 by their argument in binary64. For
  a speed \<open>s\<close> between \<open>2^-1000\<close> and \<open>2^1000\<close> neither division raises, overflows or
  underflows, and converting the speed to a pace and back gives a speed within a relative
  error of \<open>3 / 2^53\<close> of \<open>s\<close>: the round trip is the identity in exact arithmetic, and
  in binary64 up to rounding.
\<close>

theorem speed_round_trip_error:
  assumes "1 / 2 ^ 1000 \<le> s" "s \<le> 2 ^ 1000"
  shows "60 / (60 / s) = s \<and>
         (\<exists>p r. speed_to_pace (Fin s) = Inr (Fin p) \<and> pace_to_speed (Fin p) = Inr (Fin r) \<and>
            speed_round_trip (Fin s) = Inr (Fin r) \<and> \<bar>r - s\<bar> \<le> 3 * s / 2 ^ 53)"
proof -
  have s: "0 < s" using assms(1) by (rule less_le_trans [rotated]) simp
  define q where "q = 60 / s"
  have q: "0 < q" using s by (simp add: q_def)
  have "q \<le> 60 / (1 / 2 ^ 1000)"
    unfolding q_def using assms(1) by (intro divide_left_mono) simp_all
  then have qu: "q \<le> 2 ^ 1006" by simp
  have "60 / 2 ^ 1000 \<le> q"
    unfolding q_def using assms(2) s by (intro divide_left_mono) simp_all
  then have ql: "1 / 2 ^ 1000 \<le> q" by simp
  have n1: "2 powi (- 1022) \<le> \<bar>q\<bar>" using ql q by (simp add: power_int_minus_divide)
  have n2: "\<bar>q\<bar> \<le> 2 ^ 1023" using qu q by simp
  define p where "p = round64 q"
  have pe: "\<bar>p - 60 / s\<bar> \<le> 60 / s * (1 / 2 ^ 53)"
    using round64_error [OF n1] q by (simp add: p_def q_def)
  have sp: "speed_to_pace (Fin s) = Inr (Fin p)"
    using s to_f64_normal [OF n1 n2] by (simp add: speed_to_pace_def fdiv64_def p_def q_def)
  define q2 where "q2 = 60 / p"
  define r where "r = round64 q2"
  have u: "(0::real) < 1 / 2 ^ 53" "(1::real) / 2 ^ 53 \<le> 1 / 3" by simp_all
  have pl: "2 / 3 * q \<le> p"
  proof -
    have "q * (1 / 2 ^ 53) \<le> q * (1 / 3)" using q by (intro mult_left_mono) simp_all
    with pe show ?thesis unfolding q_def [symmetric] by linarith
  qed
  then have p0: "0 < p" using q by linarith
  have q2p: "0 < q2" using p0 by (simp add: q2_def)
  have "q2 \<le> 60 / (2 / 3 * q)"
    unfolding q2_def using pl q by (intro divide_left_mono) simp_all
  also have "\<dots> = 90 / q" by simp
  also have "\<dots> \<le> 90 / (1 / 2 ^ 1000)" using ql by (intro divide_left_mono) simp_all
  finally have q2u: "q2 \<le> 2 ^ 1007" by simp
  have "p \<le> q + q * (1 / 2 ^ 53)" using pe unfolding q_def [symmetric] by linarith
  also have "\<dots> \<le> q + q" using q by simp
  also have "\<dots> \<le> 2 ^ 1007" using qu by simp
  finally have pu: "p \<le> 2 ^ 1007" .
  have "60 / 2 ^ 1007 \<le> q2"
    unfolding q2_def using pu p0 by (intro divide_left_mono) simp_all
  then have q2l: "1 / 2 ^ 1007 \<le> q2" by simp
  have m1: "2 powi (- 1022) \<le> \<bar>q2\<bar>" using q2l q2p by (simp add: power_int_minus_divide)
  have m2: "\<bar>q2\<bar> \<le> 2 ^ 1023" using q2u q2p by simp
  have re: "\<bar>r - 60 / p\<bar> \<le> 60 / p * (1 / 2 ^ 53)"
    using round64_error [OF m1] q2p by (simp add: r_def q2_def)
  have ps: "pace_to_speed (Fin p) = Inr (Fin r)"
    using p0 to_f64_normal [OF m1 m2] by (simp add: pace_to_speed_def fdiv64_def r_def q2_def)
  have "\<bar>r - s\<bar> \<le> 3 * s * (1 / 2 ^ 53)"
    using round_trip_bound [OF s u pe re] by simp
  then have b: "\<bar>r - s\<bar> \<le> 3 * s / 2 ^ 53" by simp
  have rt: "speed_round_trip (Fin s) = Inr (Fin r)"
    by (simp add: speed_round_trip_def sp ps)
  have "60 / (60 / s) = s" using s by simp
  with sp ps rt b show ?thesis by blast
qed

text \<open>Evaluation of the divisions at the doubles that occur below.\<close>

lemma to_f64_value: "\<bar>r\<bar> < 2 ^ 1024 \<Longrightarrow> round64 x = r \<Longrightarrow> to_f64 x = Fin r"
  by (auto simp: to_f64_def Let_def)

lemma round64_six: "round64 (60 / 10) = 6"
  by code_simp

lemma round64_ten: "round64 (60 / 6) = 10"
  by code_simp

lemma round64_9_10: "round64 (9 / 10) = 8106479329266893 / 9007199254740992"
  by code_simp

lemma round64_pace_9_10:
  "round64 (60 / (8106479329266893 / 9007199254740992)) = 4691249611844267 / 70368744177664"
  by code_simp

lemma round64_back_9_10:
  "round64 (60 / (4691249611844267 / 70368744177664)) = 2026619832316723 / 2251799813685248"
  by code_simp

lemma speed_to_pace_10: "speed_to_pace (Fin 10) = Inr (Fin 6)"
  unfolding speed_to_pace_def fdiv64_def f64.case
  by (subst to_f64_value [OF _ round64_six]) simp_all

lemma pace_to_speed_6: "pace_to_speed (Fin 6) = Inr (Fin 10)"
  unfolding pace_to_speed_def fdiv64_def f64.case
  by (subst to_f64_value [OF _ round64_ten]) simp_all

lemma speed_to_pace_9_10:
  "speed_to_pace (Fin (8106479329266893 / 9007199254740992)) =
     Inr (Fin (4691249611844267 / 70368744177664))"
  unfolding speed_to_pace_def fdiv64_def f64.case
  by (subst to_f64_value [OF _ round64_pace_9_10]) simp_all

lemma pace_to_speed_9_10:
  "pace_to_speed (Fin (4691249611844267 / 70368744177664)) =
     Inr (Fin (2026619832316723 / 2251799813685248))"
  unfolding pace_to_speed_def fdiv64_def f64.case
  by (subst to_f64_value [OF _ round64_back_9_10]) simp_all

text \<open>The theorem at 10 km/h, where the round trip happens to be exact: 6 min/km and back.\<close>

theorem speed_round_trip_error_witness:
  "(1::real) / 2 ^ 1000 \<le> 10 \<and> (10::real) \<le> 2 ^ 1000 \<and>
   speed_round_trip (Fin 10) = Inr (Fin 10)"
proof -
  have h: "(1::real) / 2 ^ 1000 \<le> 10" "(10::real) \<le> 2 ^ 1000" by simp_all
  have "speed_round_trip (Fin 10) = Inr (Fin 10)"
    using speed_round_trip_error [OF h]
    by (simp add: speed_round_trip_def speed_to_pace_10 pace_to_speed_6)
  with h show ?thesis by simp
qed

text \<open>
  C9 as the specification states it fails: the double nearest to 0.9 is
  \<open>8106479329266893 / 2^53\<close>; its pace is the double \<open>4691249611844267 / 2^46\<close> and the
  speed of that pace is \<open>2026619832316723 / 2^51\<close>, the next double below the one of 0.9
  (Python prints it as 0.8999999999999999).
\<close>

theorem speed_round_trip_counterexample:
  "speed_round_trip (Fin (round64 (9 / 10))) = Inr (Fin (2026619832316723 / 2 ^ 51)) \<and>
   speed_round_trip (Fin (round64 (9 / 10))) \<noteq> Inr (Fin (round64 (9 / 10)))"
  by (simp add: round64_9_10 speed_round_trip_def speed_to_pace_9_10 pace_to_speed_9_10)

end
